theory Spec2Isabelle
  imports Main "HOL-Library.Sublist"
begin

section \<open>The provisioning document\<close>

text \<open>
  The steps of \<^verbatim>\<open>pkg/lift/execute.go\<close> read the document \<^verbatim>\<open>l.Data\<close>. Its type
  declarations live outside that file; the records below hold exactly the fields the
  steps read, under the names the steps use. A Go string is a byte string, a slice is
  a list (\<^verbatim>\<open>nil\<close> and the empty slice are both the empty list: the steps only ever
  test \<^verbatim>\<open>!= nil && len > 0\<close>), and a pointer to a section is an option.
\<close>

record ResolvConf_t =
  Domain_rc :: string
  NameServers :: "string list"

record NTP_t =
  Pools :: "string list"
  Servers :: "string list"

record Network_t =
  HostName :: string
  InterfaceOpts :: string
  Proxy :: string
  ResolvConf :: "ResolvConf_t option"
  NTP :: "NTP_t option"

record SSHDConfig_t =
  AuthorizedKeys :: "string list"

record Packages_t =
  Repositories :: "string list"
  Update :: bool
  Upgrade :: bool
  Install :: "string list"
  Uninstall :: "string list"

text \<open>The steps only test the MTA section for presence; its fields go to the template.\<close>

datatype MTA_t = MTA_section

record DRP_t =
  AssetsURL :: string

record WriteFile_t =
  Path :: string
  Permissions :: string
  Content :: string
  ContentURL :: string
  Owner :: string

record AlpineData =
  Network :: Network_t
  SSHDConfig :: SSHDConfig_t
  Packages :: Packages_t
  MTA :: "MTA_t option"
  ScratchDisk :: string
  DRP :: DRP_t
  WriteFiles :: "WriteFile_t list"
  MOTD :: string
  RootPasswd :: string

section \<open>Errors, external calls and the trace\<close>

text \<open>
  A Go \<^verbatim>\<open>error\<close> is a value: \<open>ExtError\<close> is an error reported by an external
  collaborator, \<open>ErrSyntax\<close> and \<open>ErrRange\<close> are the two errors of
  \<^verbatim>\<open>strconv.ParseUint\<close> (with the string parsed), \<open>Errorf\<close> is \<^verbatim>\<open>fmt.Errorf\<close> with
  its format and arguments, and \<open>Panic\<close> is a run-time panic.
\<close>

datatype error =
    ExtError string
  | ErrSyntax string
  | ErrRange string
  | Errorf string "fmtarg list"
  | Panic string
and fmtarg = FStr string | FNat nat | FErr error

datatype ServiceAction = START | STOP | RESTART

datatype level = Debug | Info

datatype stream = NoStream | OsStdout | OsStderr | PipeReader

text \<open>
  An \<^verbatim>\<open>exec.Cmd\<close>: \<open>Env = None\<close> is the unset field (the child inherits the
  environment).
\<close>

record Cmd =
  Name :: string
  Args :: "string list"
  Env :: "string list option"
  Stdin :: stream
  Stdout :: stream
  Stderr :: stream

definition Command :: "string \<Rightarrow> string list \<Rightarrow> Cmd" where
  "Command n as = \<lparr>Name = n, Args = as, Env = None,
     Stdin = NoStream, Stdout = NoStream, Stderr = NoStream\<rparr>"

datatype template = ssmtpConf | chronyConf | repoFile | answerFile | drpcliInit

datatype tdata = DocData AlpineData | ReposData "string list"

datatype openflag = O_RDWR | O_EXCL

text \<open>
  Everything a step asks of the host, in the order it asks: log lines (level, fields
  of \<^verbatim>\<open>WithField\<close>, format, arguments), sleeps, and the calls to external programs,
  the filesystem, the service controller, the template renderer, the directive patcher
  and the downloader. A file handle is named by the path it was opened on.
\<close>

datatype event =
    Log level "(string \<times> fmtarg) list" string "fmtarg list"
  | Sleep nat
  | Run Cmd
  | Output Cmd
  | Start Cmd
  | Wait Cmd
  | PipeWrite string
  | PipeCloseWriter
  | PipeCloseReader
  | Processes
  | GetMounts
  | DoService string ServiceAction
  | GenerateFile template tdata
  | ParseConfigFile string string "(string \<times> string) list"
  | OpenOrCreate string
  | OpenFile string "openflag list" nat
  | Truncate string nat
  | WriteString string string
  | CloseFile string
  | MkdirAll string nat
  | DownloadFile string
  | WriteFile string string nat

fun is_log :: "event \<Rightarrow> bool" where
  "is_log (Log l fs f as) = True"
| "is_log e = False"

text \<open>The calls that leave the process: everything but the step's own log lines.\<close>

definition external_calls :: "event list \<Rightarrow> event list" where
  "external_calls tr = filter (\<lambda>e. \<not> is_log e) tr"

text \<open>
  What a call gives back. Go calls return a value and an error side by side, so a
  response holds both: \<open>err\<close> (\<open>None\<close> is \<^verbatim>\<open>nil\<close>), \<open>out\<close> (a path, a command's
  output, downloaded bytes) and \<open>names\<close> (executable names of the process list, mount
  points of the mount table).
\<close>

record response =
  err :: "error option"
  out :: string
  names :: "string list"

text \<open>
  The host: \<open>respond\<close> answers a call given everything that happened before it, so
  the same call may succeed once and fail later. \<open>silent\<close> is the package's flag,
  \<open>os_Environ\<close> the process environment, \<open>getSSHDKVMap\<close> the document's sshd
  directives, \<open>filepath_Dir\<close> the library's parent-directory function and
  \<open>strings_ToLower\<close> the library's lower-casing function, which maps the letters of
  all of Unicode. All five are declared outside \<^verbatim>\<open>execute.go\<close> and are parameters
  here: what is proved of a step holds whatever they are.
\<close>

record env =
  respond :: "event list \<Rightarrow> event \<Rightarrow> response"
  silent :: bool
  os_Environ :: "string list"
  getSSHDKVMap :: "AlpineData \<Rightarrow> (string \<times> string) list"
  filepath_Dir :: "string \<Rightarrow> string"
  strings_ToLower :: "string \<Rightarrow> string"

type_synonym step = "event list \<Rightarrow> error option \<times> event list"

text \<open>\<^verbatim>\<open>return r\<close>.\<close>

definition ret :: "error option \<Rightarrow> step" where
  "ret r tr = (r, tr)"

text \<open>A log line or a sleep, then the rest.\<close>

definition emit :: "event \<Rightarrow> (event list \<Rightarrow> 'a) \<Rightarrow> event list \<Rightarrow> 'a" where
  "emit e k tr = k (tr @ [e])"

text \<open>A call whose response the rest inspects (or ignores, as in \<^verbatim>\<open>_ = f()\<close>).\<close>

definition call :: "env \<Rightarrow> event \<Rightarrow> (response \<Rightarrow> event list \<Rightarrow> 'a) \<Rightarrow> event list \<Rightarrow> 'a" where
  "call env e k tr = k (respond env tr e) (tr @ [e])"

text \<open>\<^verbatim>\<open>if err := f(); err != nil { return err }\<close>, then the rest.\<close>

definition try_call :: "env \<Rightarrow> event \<Rightarrow> (response \<Rightarrow> step) \<Rightarrow> step" where
  "try_call env e k =
     call env e (\<lambda>r. case err r of Some x \<Rightarrow> ret (Some x) | None \<Rightarrow> k r)"

text \<open>The same for a step of this package.\<close>

definition try_step :: "step \<Rightarrow> step \<Rightarrow> step" where
  "try_step m k tr = (case m tr of (Some x, tr') \<Rightarrow> (Some x, tr') | (None, tr') \<Rightarrow> k tr')"

section \<open>Library functions the steps use\<close>

definition tab :: char where "tab = CHR 0x09"
definition newline :: char where "newline = CHR 0x0A"

text \<open>\<^verbatim>\<open>strings.Split(s, sep)\<close> for a one-byte separator; never the empty list.\<close>

fun strings_Split :: "string \<Rightarrow> char \<Rightarrow> string list" where
  "strings_Split [] c = [[]]"
| "strings_Split (x # xs) c =
     (if x = c then [] # strings_Split xs c
      else (case strings_Split xs c of
              w # ws \<Rightarrow> (x # w) # ws
            | [] \<Rightarrow> [[x]]))"

text \<open>\<^verbatim>\<open>strings.Contains(s, substr)\<close>.\<close>

fun strings_Contains :: "string \<Rightarrow> string \<Rightarrow> bool" where
  "strings_Contains [] sub = (sub = [])"
| "strings_Contains (x # xs) sub =
     (take (length sub) (x # xs) = sub \<or> strings_Contains xs sub)"

text \<open>
  Lower-casing of ASCII text: the letters A to Z move to a to z, every other byte
  stays. On ASCII text this is \<^verbatim>\<open>strings.ToLower\<close>; the steps do not use it, they
  take the library's function from the host, and only the example hosts below, whose
  process names are ASCII, answer with it.
\<close>

definition lower_byte :: "char \<Rightarrow> char" where
  "lower_byte c =
     (case map_of (zip ''ABCDEFGHIJKLMNOPQRSTUVWXYZ'' ''abcdefghijklmnopqrstuvwxyz'') c of
        Some l \<Rightarrow> l
      | None \<Rightarrow> c)"

definition ascii_ToLower :: "string \<Rightarrow> string" where
  "ascii_ToLower s = map lower_byte s"

text \<open>\<^verbatim>\<open>strings.Join(xs, sep)\<close>.\<close>

fun strings_Join :: "string list \<Rightarrow> string \<Rightarrow> string" where
  "strings_Join [] sep = []"
| "strings_Join [x] sep = x"
| "strings_Join (x # y # ys) sep = x @ sep @ strings_Join (y # ys) sep"

text \<open>
  \<^verbatim>\<open>strconv.ParseUint(s, 8, 32)\<close>: the empty string and any byte other than the
  digits 0 to 7 are a syntax error, a value above \<open>2^32 - 1\<close> is a range error, and
  the bytes are read left to right, so the first of the two that occurs is reported.
\<close>

definition octal_value :: "char \<Rightarrow> nat option" where
  "octal_value c = map_of (zip ''01234567'' [0, 1, 2, 3, 4, 5, 6, 7]) c"

fun parse_octal :: "string \<Rightarrow> string \<Rightarrow> nat \<Rightarrow> error + nat" where
  "parse_octal s0 [] n = Inr n"
| "parse_octal s0 (c # cs) n =
     (case octal_value c of
        None \<Rightarrow> Inl (ErrSyntax s0)
      | Some v \<Rightarrow>
          (let n1 = n * 8 + v in
           if 2 ^ 32 - 1 < n1 then Inl (ErrRange s0) else parse_octal s0 cs n1))"

definition strconv_ParseUint_8_32 :: "string \<Rightarrow> error + nat" where
  "strconv_ParseUint_8_32 s = (if s = [] then Inl (ErrSyntax s) else parse_octal s s 0)"

section \<open>The steps\<close>

text \<open>\<^verbatim>\<open>setHostname\<close>: the short name is the first field of the name split at dots.\<close>

definition setHostname :: "env \<Rightarrow> AlpineData \<Rightarrow> step" where
  "setHostname env d =
     (if HostName (Network d) \<noteq> [] then
        (case strings_Split (HostName (Network d)) (CHR ''.'') of
           [] \<Rightarrow> ret (Some (Panic ''index out of range''))
         | host # _ \<Rightarrow>
             try_call env (Run (Command ''hostname'' [host])) (\<lambda>_.
             try_call env (Run (Command ''setup-hostname'' [''-n'', host])) (\<lambda>_.
             try_call env (OpenOrCreate ''/etc/hosts'') (\<lambda>_.
             call env (WriteString ''/etc/hosts''
                 (''127.0.0.1'' @ [tab] @ HostName (Network d) @ '' '' @ host @ [newline])) (\<lambda>w.
             call env (CloseFile ''/etc/hosts'') (\<lambda>_.
             ret (err w)))))))
      else ret None)"

text \<open>\<^verbatim>\<open>mtaSetup\<close>.\<close>

definition ssmtpConfFile :: string where "ssmtpConfFile = ''/etc/ssmtp/ssmtp.conf''"
definition chronyConfFile :: string where "chronyConfFile = ''/etc/chrony/chrony.conf''"

definition mtaSetup :: "env \<Rightarrow> AlpineData \<Rightarrow> step" where
  "mtaSetup env d =
     (if MTA d = None then
        emit (Log Debug [] ''No MTA configured'' []) (ret None)
      else
        emit (Log Debug [] ''apk add ssmtp'' []) (
        try_call env (Run (Command ''apk'' [''add'', ''ssmtp''])) (\<lambda>_.
        emit (Log Debug [] ''Generating ssmtp.conf'' []) (
        try_call env (GenerateFile ssmtpConf (DocData d)) (\<lambda>g.
        emit (Log Debug [] ''Copying ssmtp.conf to %s'' [FStr ssmtpConfFile]) (
        try_call env (Run (Command ''mv'' [out g, ssmtpConfFile])) (\<lambda>_.
        ret None)))))))"

text \<open>
  \<^verbatim>\<open>diskSetup\<close>. The loop over the process list logs every executable name and sets
  \<^verbatim>\<open>dockerPresent\<close> when a name, lower-cased by \<^verbatim>\<open>strings.ToLower\<close>, contains
  \<^verbatim>\<open>docker\<close>.
\<close>

fun scan_procs :: "env \<Rightarrow> string list \<Rightarrow> bool \<Rightarrow> event list \<Rightarrow> bool \<times> event list" where
  "scan_procs env [] dockerPresent tr = (dockerPresent, tr)"
| "scan_procs env (p # ps) dockerPresent tr =
     (if strings_Contains (strings_ToLower env p) ''docker''
      then scan_procs env ps True
             (tr @ [Log Debug [] ''Process: %s'' [FStr p], Log Debug [] ''Docker process detected'' []])
      else scan_procs env ps dockerPresent (tr @ [Log Debug [] ''Process: %s'' [FStr p]]))"

text \<open>The two guarded service requests; their errors are dropped (\<^verbatim>\<open>_ = doService(...)\<close>).\<close>

definition stop_docker :: "bool \<Rightarrow> event list \<Rightarrow> event list" where
  "stop_docker dockerPresent tr =
     (if dockerPresent
      then tr @ [Log Info [] ''Stopping Docker...'' [], DoService ''docker'' STOP, Sleep 2]
      else tr)"

definition start_docker :: "bool \<Rightarrow> event list \<Rightarrow> event list" where
  "start_docker dockerPresent tr =
     (if dockerPresent
      then tr @ [Log Info [] ''Starting Docker...'' [], DoService ''docker'' START]
      else tr)"

text \<open>The loop over the mount table; the result of \<^verbatim>\<open>umount\<close> is dropped.\<close>

fun unmount_var :: "string list \<Rightarrow> event list \<Rightarrow> event list" where
  "unmount_var [] tr = tr"
| "unmount_var (m # ms) tr =
     (if strings_Contains m ''/var''
      then unmount_var ms (tr @ [Log Info [] ''Unmounting %s'' [FStr m], Run (Command ''umount'' [m])])
      else unmount_var ms tr)"

definition setup_disk_cmd :: "env \<Rightarrow> AlpineData \<Rightarrow> Cmd" where
  "setup_disk_cmd env d =
     (Command ''setup-disk'' [''-q'', ''-m'', ''data'', ScratchDisk d])
       \<lparr>Env := Some (os_Environ env @
                 [''VARFS=xfs'', ''ERASE_DISKS='' @ ScratchDisk d, ''MKFS_OPTS_VAR=-f'',
                  ''DEFAULT_DISK=none'']),
        Stdout := (if \<not> silent env then OsStdout else NoStream),
        Stderr := (if \<not> silent env then OsStderr else NoStream)\<rparr>"

text \<open>A part of a step that cannot fail, then the rest.\<close>

definition after :: "(event list \<Rightarrow> event list) \<Rightarrow> (event list \<Rightarrow> 'a) \<Rightarrow> event list \<Rightarrow> 'a" where
  "after f k tr = k (f tr)"

definition diskSetup :: "env \<Rightarrow> AlpineData \<Rightarrow> step" where
  "diskSetup env d =
     (if ScratchDisk d = [] then
        emit (Log Debug [] ''No Scratch Disk defined'' []) (ret None)
      else
        emit (Log Debug [] ''Check if Docker is running'' []) (
        emit (Sleep 3) (
        try_call env Processes (\<lambda>procs.
        emit (Log Debug [(''numprocs'', FNat (length (names procs)))] ''Fetch process list'' []) (\<lambda>tr0.
        (case scan_procs env (names procs) False tr0 of (dockerPresent, tr1) \<Rightarrow>
           after (stop_docker dockerPresent) (
           call env GetMounts (\<lambda>mnts.
           after (unmount_var (names mnts)) (
           emit (Log Debug [(''disk'', FStr (ScratchDisk d))] ''Setup Scratch Disk'' []) (
           try_call env (Run (setup_disk_cmd env d)) (\<lambda>_.
           after (start_docker dockerPresent) (
           call env (Output (Command ''cat'' [''/proc/swap''])) (\<lambda>swap.
           case err swap of
             Some _ \<Rightarrow> ret None
           | None \<Rightarrow>
               if \<not> strings_Contains (out swap) (ScratchDisk d)
               then call env (Run (Command ''swapon'' [''-a''])) (\<lambda>_. ret None)
               else ret None))))))) tr1))))))"

text \<open>\<^verbatim>\<open>proxySetup\<close>.\<close>

definition proxySetup :: "env \<Rightarrow> AlpineData \<Rightarrow> step" where
  "proxySetup env d =
     (if Proxy (Network d) \<noteq> [] then
        emit (Log Debug [(''proxy'', FStr (Proxy (Network d)))] ''Found proxy setting'' []) (
        try_call env (Run (Command ''setup-proxy'' [Proxy (Network d)])) (\<lambda>_.
        ret None))
      else ret None)"

text \<open>
  \<^verbatim>\<open>rootPasswdSetup\<close>. The pipe is an \<^verbatim>\<open>io.Pipe\<close>: a write to it returns only once a
  reader has taken the data, and its only reader is the copying to the tool's standard
  input that a successful \<^verbatim>\<open>Start\<close> sets going. The code drops the result of
  \<^verbatim>\<open>Start\<close>, so after a failed \<^verbatim>\<open>Start\<close> it still writes, the write never returns,
  and neither does the step: the value of the step is then \<open>None\<close>. After a successful
  \<^verbatim>\<open>Start\<close> the write returns; the results of the write and of both closes are
  dropped and the result of \<^verbatim>\<open>Wait\<close> is returned.
\<close>

definition chpasswdCmd :: Cmd where
  "chpasswdCmd = (Command ''chpasswd'' [])\<lparr>Stdin := PipeReader, Stdout := OsStdout, Stderr := OsStderr\<rparr>"

text \<open>A step that returns \<open>r\<close>, and a step that never returns.\<close>

definition returns :: "error option \<Rightarrow> event list \<Rightarrow> (error option \<times> event list) option" where
  "returns r tr = Some (r, tr)"

definition blocks :: "event list \<Rightarrow> (error option \<times> event list) option" where
  "blocks tr = None"

definition rootPasswdSetup ::
  "env \<Rightarrow> AlpineData \<Rightarrow> event list \<Rightarrow> (error option \<times> event list) option" where
  "rootPasswdSetup env d =
     (if RootPasswd d \<noteq> [] then
        call env (Start chpasswdCmd) (\<lambda>started.
        case err started of
          Some _ \<Rightarrow>
            emit (PipeWrite (''root:'' @ RootPasswd d @ [newline])) blocks
        | None \<Rightarrow>
            call env (PipeWrite (''root:'' @ RootPasswd d @ [newline])) (\<lambda>_.
            call env PipeCloseWriter (\<lambda>_.
            call env (Wait chpasswdCmd) (\<lambda>w.
            call env PipeCloseReader (\<lambda>_.
            (case err w of Some x \<Rightarrow> returns (Some x) | None \<Rightarrow> returns None))))))
      else returns None)"

text \<open>
  \<^verbatim>\<open>addSSHKeys\<close>: the deferred close runs on every return after the file is open.
\<close>

fun write_keys :: "env \<Rightarrow> string list \<Rightarrow> step" where
  "write_keys env [] tr = (None, tr)"
| "write_keys env (key # keys) tr =
     try_call env (WriteString ''/root/.ssh/authorized_keys'' (key @ [newline]))
       (\<lambda>_. write_keys env keys) tr"

definition addSSHKeys :: "env \<Rightarrow> AlpineData \<Rightarrow> step" where
  "addSSHKeys env d =
     (if AuthorizedKeys (SSHDConfig d) \<noteq> [] then
        try_call env (OpenOrCreate ''/root/.ssh/authorized_keys'') (\<lambda>_ tr.
        (case write_keys env (AuthorizedKeys (SSHDConfig d)) tr of (r, tr') \<Rightarrow>
           call env (CloseFile ''/root/.ssh/authorized_keys'') (\<lambda>_. ret r) tr'))
      else ret None)"

text \<open>\<^verbatim>\<open>sshdSetup\<close>: three sub-steps, each returning its error.\<close>

definition sshdSetup :: "env \<Rightarrow> AlpineData \<Rightarrow> step" where
  "sshdSetup env d =
     try_call env (ParseConfigFile ''/etc/ssh/sshd_config'' '' '' (getSSHDKVMap env d)) (\<lambda>_.
     try_step (addSSHKeys env d) (
     try_call env (DoService ''sshd'' RESTART) (\<lambda>_.
     ret None)))"

text \<open>\<^verbatim>\<open>dnsSetup\<close> and \<^verbatim>\<open>ntpSetup\<close>.\<close>

definition dnsSetup :: "env \<Rightarrow> AlpineData \<Rightarrow> step" where
  "dnsSetup env d =
     (case ResolvConf (Network d) of
        None \<Rightarrow> ret None
      | Some rc \<Rightarrow>
          if NameServers rc \<noteq> [] then
            try_call env (Run (Command ''setup-dns''
                [''-d'', Domain_rc rc, ''-n'', strings_Join (NameServers rc) '' ''])) (\<lambda>_.
            ret None)
          else ret None)"

definition ntpSetup :: "env \<Rightarrow> AlpineData \<Rightarrow> step" where
  "ntpSetup env d =
     (case NTP (Network d) of
        None \<Rightarrow> ret None
      | Some ntp \<Rightarrow>
          if Pools ntp \<noteq> [] \<or> Servers ntp \<noteq> [] then
            try_call env (Run (Command ''setup-ntp'' [''-c'', ''chrony''])) (\<lambda>_.
            emit (Log Debug [] ''Generating chrony.conf'' []) (
            try_call env (GenerateFile chronyConf (DocData d)) (\<lambda>g.
            emit (Log Debug [] ''Copying chrony.conf to %s'' [FStr chronyConfFile]) (
            try_call env (Run (Command ''mv'' [out g, chronyConfFile])) (\<lambda>_.
            emit (Log Debug [] ''Restart Chrony'' []) (
            call env (DoService ''chronyd'' RESTART) (\<lambda>_.
            ret None)))))))
          else ret None)"

text \<open>\<^verbatim>\<open>setupAPK\<close>: the repositories file, update, upgrade, then the two loops.\<close>

definition apk_update :: "env \<Rightarrow> AlpineData \<Rightarrow> step" where
  "apk_update env d =
     (if Update (Packages d) then
        emit (Log Debug [] ''Executing apk update'' []) (
        try_call env (Run (Command ''apk'' [''update''])) (\<lambda>_. ret None))
      else ret None)"

definition apk_upgrade :: "env \<Rightarrow> AlpineData \<Rightarrow> step" where
  "apk_upgrade env d =
     (if Upgrade (Packages d) then
        emit (Log Debug [] ''Executing apk upgrade'' []) (
        try_call env (Run (Command ''apk'' [''upgrade''])) (\<lambda>_. ret None))
      else ret None)"

fun apk_del :: "env \<Rightarrow> string list \<Rightarrow> step" where
  "apk_del env [] tr = (None, tr)"
| "apk_del env (p # ps) tr =
     emit (Log Debug [(''package'', FStr p)] ''Executing apk del'' []) (
     try_call env (Run (Command ''apk'' [''del'', p])) (\<lambda>_. apk_del env ps)) tr"

fun apk_add :: "env \<Rightarrow> string list \<Rightarrow> step" where
  "apk_add env [] tr = (None, tr)"
| "apk_add env (p # ps) tr =
     emit (Log Debug [(''package'', FStr p)] ''Executing apk add'' []) (
     try_call env (Run (Command ''apk'' [''add'', p])) (\<lambda>_. apk_add env ps)) tr"

definition setupAPK :: "env \<Rightarrow> AlpineData \<Rightarrow> step" where
  "setupAPK env d =
     try_call env (GenerateFile repoFile (ReposData (Repositories (Packages d)))) (\<lambda>rfile.
     emit (Log Debug [] ''Setting up repositories'' []) (
     try_call env (Run (Command ''mv'' [out rfile, ''/etc/apk/repositories''])) (\<lambda>_.
     try_step (apk_update env d) (
     try_step (apk_upgrade env d) (
     try_step (apk_del env (Uninstall (Packages d))) (
     try_step (apk_add env (Install (Packages d))) (
     ret None)))))))"

text \<open>\<^verbatim>\<open>setMOTD\<close>; the mode \<^verbatim>\<open>0600\<close> is 384.\<close>

definition setMOTD :: "env \<Rightarrow> AlpineData \<Rightarrow> step" where
  "setMOTD env d =
     (if MOTD d \<noteq> [] then
        try_call env (Truncate ''/etc/motd'' 0) (\<lambda>_.
        try_call env (OpenFile ''/etc/motd'' [O_RDWR, O_EXCL] 384) (\<lambda>_.
        call env (WriteString ''/etc/motd'' (MOTD d @ [newline])) (\<lambda>w.
        call env (CloseFile ''/etc/motd'') (\<lambda>_.
        ret (err w)))))
      else ret None)"

text \<open>
  \<^verbatim>\<open>createFiles\<close>. \<open>write_and_chown\<close> is the tail of the loop body, from
  \<^verbatim>\<open>ioutil.WriteFile\<close> on; \<open>createFile\<close> is the whole body, where \<open>Some\<close> is a
  \<^verbatim>\<open>return\<close> out of the loop and \<open>None\<close> falls through to the next descriptor. The
  mode \<^verbatim>\<open>0711\<close> is 457.
\<close>

definition chown :: "env \<Rightarrow> WriteFile_t \<Rightarrow> step" where
  "chown env fd =
     (if Owner fd \<noteq> [] then
        try_call env (Run (Command ''chown'' [Owner fd, Path fd])) (\<lambda>_. ret None)
      else ret None)"

definition write_and_chown :: "env \<Rightarrow> WriteFile_t \<Rightarrow> nat \<Rightarrow> string \<Rightarrow> step" where
  "write_and_chown env fd perm data =
     call env (WriteFile (Path fd) data perm) (\<lambda>w.
     case err w of
       Some e \<Rightarrow> emit (Log Debug [] ''error writing file: %s'' [FErr e]) (chown env fd)
     | None \<Rightarrow> chown env fd)"

definition createFile :: "env \<Rightarrow> WriteFile_t \<Rightarrow> step" where
  "createFile env fd =
     (case strconv_ParseUint_8_32 (Permissions fd) of
        Inl e \<Rightarrow> ret (Some (Errorf ''Error reading permissions: %s'' [FErr e]))
      | Inr perm \<Rightarrow>
          emit (Log Info [] ''Creating %s'' [FStr (Path fd)]) (
          call env (MkdirAll (filepath_Dir env (Path fd)) 457) (\<lambda>m.
          case err m of
            Some e \<Rightarrow> ret (Some (Errorf ''Error creating %s: %s''
                                  [FStr (filepath_Dir env (Path fd)), FErr e]))
          | None \<Rightarrow>
              if Content fd \<noteq> [] then write_and_chown env fd perm (Content fd)
              else if ContentURL fd \<noteq> [] then
                try_call env (DownloadFile (ContentURL fd)) (\<lambda>dl.
                write_and_chown env fd perm (out dl))
              else write_and_chown env fd perm [])))"

fun createFiles_loop :: "env \<Rightarrow> WriteFile_t list \<Rightarrow> step" where
  "createFiles_loop env [] tr = (None, tr)"
| "createFiles_loop env (fd # fds) tr =
     try_step (createFile env fd) (createFiles_loop env fds) tr"

definition createFiles :: "env \<Rightarrow> AlpineData \<Rightarrow> step" where
  "createFiles env d = createFiles_loop env (WriteFiles d)"

section \<open>Concrete hosts and documents\<close>

text \<open>
  \<open>host procs bad\<close> is a host whose process list is \<open>procs\<close> and on which exactly
  the calls to the programs, services and functions named in \<open>bad\<close> fail; every
  other call succeeds; the template renderer answers with the path of a temporary
  file, every other call with empty output.
\<close>

fun callee :: "event \<Rightarrow> string" where
  "callee (Run c) = ''run '' @ Name c"
| "callee (Output c) = ''output of '' @ Name c"
| "callee (Start c) = ''start '' @ Name c"
| "callee (Wait c) = ''wait '' @ Name c"
| "callee (DoService s a) = ''service '' @ s"
| "callee (WriteFile p x m) = ''WriteFile''"
| "callee (MkdirAll p m) = ''MkdirAll''"
| "callee (DownloadFile u) = ''downloadFile''"
| "callee e = []"

fun reply_text :: "event \<Rightarrow> string" where
  "reply_text (GenerateFile t x) = ''/tmp/lift-rendered''"
| "reply_text e = []"

definition host :: "string list \<Rightarrow> string list \<Rightarrow> env" where
  "host procs bad =
     \<lparr>respond = (\<lambda>h e.
        \<lparr>err = (if callee e \<in> set bad then Some (ExtError (callee e)) else None),
         out = reply_text e,
         names = (if e = Processes then procs else [])\<rparr>),
      silent = False, os_Environ = [], getSSHDKVMap = (\<lambda>d. []), filepath_Dir = (\<lambda>p. p),
      strings_ToLower = ascii_ToLower\<rparr>"

text \<open>The document with every section absent or empty.\<close>

definition doc0 :: AlpineData where
  "doc0 = \<lparr>Network = \<lparr>HostName = [], InterfaceOpts = [], Proxy = [], ResolvConf = None, NTP = None\<rparr>,
     SSHDConfig = \<lparr>AuthorizedKeys = []\<rparr>,
     Packages = \<lparr>Repositories = [], Update = False, Upgrade = False, Install = [], Uninstall = []\<rparr>,
     MTA = None, ScratchDisk = [], DRP = \<lparr>AssetsURL = []\<rparr>, WriteFiles = [], MOTD = [],
     RootPasswd = []\<rparr>"

section \<open>What the specification says the steps issue\<close>

text \<open>The short host name: the text before the first dot.\<close>

definition short_name :: "string \<Rightarrow> string" where
  "short_name fqdn = takeWhile (\<lambda>c. c \<noteq> CHR ''.'') fqdn"

text \<open>The line for the hosts file: \<^verbatim>\<open>127.0.0.1\t<fqdn> <short>\n\<close>.\<close>

definition hosts_line :: "string \<Rightarrow> string" where
  "hosts_line fqdn = ''127.0.0.1'' @ [tab] @ fqdn @ '' '' @ short_name fqdn @ [newline]"

text \<open>
  The calls of the hostname step: the runtime host name, the persistent host name,
  then the hosts file opened, written to and closed.
\<close>

definition hostname_calls :: "string \<Rightarrow> event list" where
  "hostname_calls fqdn =
     [Run (Command ''hostname'' [short_name fqdn]),
      Run (Command ''setup-hostname'' [''-n'', short_name fqdn]),
      OpenOrCreate ''/etc/hosts'',
      WriteString ''/etc/hosts'' (hosts_line fqdn),
      CloseFile ''/etc/hosts'']"

text \<open>
  The calls of the package step: the repositories file is rendered to \<open>rfile\<close> and
  moved into place, then update and upgrade when asked for, then one \<^verbatim>\<open>apk del\<close>
  for each package to uninstall and one \<^verbatim>\<open>apk add\<close> for each package to install,
  each list in its own order.
\<close>

definition apk_calls :: "string \<Rightarrow> AlpineData \<Rightarrow> event list" where
  "apk_calls rfile d =
     [GenerateFile repoFile (ReposData (Repositories (Packages d))),
      Run (Command ''mv'' [rfile, ''/etc/apk/repositories''])]
     @ (if Update (Packages d) then [Run (Command ''apk'' [''update''])] else [])
     @ (if Upgrade (Packages d) then [Run (Command ''apk'' [''upgrade''])] else [])
     @ map (\<lambda>p. Run (Command ''apk'' [''del'', p])) (Uninstall (Packages d))
     @ map (\<lambda>p. Run (Command ''apk'' [''add'', p])) (Install (Packages d))"

text \<open>A host on which no call fails.\<close>

definition all_succeed :: "env \<Rightarrow> bool" where
  "all_succeed env \<longleftrightarrow> (\<forall>h e. err (respond env h e) = None)"

text \<open>
  \<open>issues env m F\<close>: from any trace, the step \<open>m\<close> only adds external calls, what
  it adds is an initial part of \<open>F\<close>, it is all of \<open>F\<close> when the step returns no
  error, and the step returns no error on a host where no call fails.
\<close>

definition issues :: "env \<Rightarrow> step \<Rightarrow> event list \<Rightarrow> bool" where
  "issues env m F \<longleftrightarrow>
     (\<forall>tr. prefix (external_calls tr) (external_calls (snd (m tr))) \<and>
        prefix (external_calls (snd (m tr))) (external_calls tr @ F) \<and>
        (fst (m tr) = None \<longrightarrow> external_calls (snd (m tr)) = external_calls tr @ F) \<and>
        (all_succeed env \<longrightarrow> fst (m tr) = None))"

text \<open>A document that asks for a host name, and one that asks for packages.\<close>

definition doc_web01 :: AlpineData where
  "doc_web01 = doc0\<lparr>Network := \<lparr>HostName = ''web01.example.com'', InterfaceOpts = [],
     Proxy = [], ResolvConf = None, NTP = None\<rparr>\<rparr>"

definition doc_packages :: AlpineData where
  "doc_packages = doc0\<lparr>Packages := \<lparr>Repositories = [], Update = True, Upgrade = True,
     Install = [''a'', ''b''], Uninstall = [''c'']\<rparr>\<rparr>"

text \<open>
  The disk step. A process is taken for the container runtime when its executable
  name, lower-cased by the host's \<^verbatim>\<open>strings.ToLower\<close>, contains \<^verbatim>\<open>docker\<close>. \<open>proc_logs\<close> and \<open>umount_events\<close> are what
  the two loops of the step add to the trace; \<open>new_events tr tr'\<close> is what a step
  that started from \<open>tr\<close> and ended in \<open>tr'\<close> added.
\<close>

definition docker_detected :: "env \<Rightarrow> string list \<Rightarrow> bool" where
  "docker_detected env ps = (\<exists>p\<in>set ps. strings_Contains (strings_ToLower env p) ''docker'')"

fun proc_logs :: "env \<Rightarrow> string list \<Rightarrow> event list" where
  "proc_logs env [] = []"
| "proc_logs env (p # ps) =
     (if strings_Contains (strings_ToLower env p) ''docker''
      then [Log Debug [] ''Process: %s'' [FStr p], Log Debug [] ''Docker process detected'' []]
      else [Log Debug [] ''Process: %s'' [FStr p]]) @ proc_logs env ps"

fun umount_events :: "string list \<Rightarrow> event list" where
  "umount_events [] = []"
| "umount_events (m # ms) =
     (if strings_Contains m ''/var''
      then [Log Info [] ''Unmounting %s'' [FStr m], Run (Command ''umount'' [m])]
      else []) @ umount_events ms"

definition new_events :: "event list \<Rightarrow> event list \<Rightarrow> event list" where
  "new_events tr tr' = drop (length tr) tr'"

text \<open>
  Of a list of events, the stop and start requests for the docker service and the
  disk-setup invocation, in the order they occur.
\<close>

definition docker_and_disk_calls :: "env \<Rightarrow> AlpineData \<Rightarrow> event list \<Rightarrow> event list" where
  "docker_and_disk_calls env d evs =
     filter (\<lambda>e. e = DoService ''docker'' STOP \<or> e = DoService ''docker'' START \<or>
                 e = Run (setup_disk_cmd env d)) evs"

text \<open>A document that asks for a scratch disk.\<close>

definition doc_disk :: AlpineData where
  "doc_disk = doc0\<lparr>ScratchDisk := ''/dev/sdb''\<rparr>"

text \<open>
  File materialization. \<open>written evs\<close> lists the paths of the content writes among
  \<open>evs\<close>, in order; \<open>perms_ok fd\<close> says that the permission string of \<open>fd\<close> parses.
\<close>

fun is_write :: "event \<Rightarrow> bool" where
  "is_write (WriteFile p x m) = True"
| "is_write e = False"

fun write_path :: "event \<Rightarrow> string list" where
  "write_path (WriteFile p x m) = [p]"
| "write_path e = []"

definition written :: "event list \<Rightarrow> string list" where
  "written evs = concat (map write_path evs)"

definition perms_ok :: "WriteFile_t \<Rightarrow> bool" where
  "perms_ok fd = (case strconv_ParseUint_8_32 (Permissions fd) of Inl e \<Rightarrow> False | Inr p \<Rightarrow> True)"

text \<open>Whether an event is a run of the program \<open>n\<close>.\<close>

fun runs :: "string \<Rightarrow> event \<Rightarrow> bool" where
  "runs n (Run c) = (Name c = n)"
| "runs n e = False"

text \<open>Descriptors for the examples.\<close>

definition fd_hello :: WriteFile_t where
  "fd_hello = \<lparr>Path = ''/etc/hello'', Permissions = ''644'', Content = ''hello'',
     ContentURL = [], Owner = []\<rparr>"

definition fd_owned :: WriteFile_t where
  "fd_owned = \<lparr>Path = ''/srv/app.conf'', Permissions = ''600'', Content = ''key=1'',
     ContentURL = [], Owner = ''app''\<rparr>"

definition fd_remote :: WriteFile_t where
  "fd_remote = \<lparr>Path = ''/opt/tool'', Permissions = ''755'', Content = [],
     ContentURL = ''http://example.com/tool'', Owner = []\<rparr>"

definition fd_badperm :: WriteFile_t where
  "fd_badperm = \<lparr>Path = ''/etc/bad'', Permissions = ''rw-r--r--'', Content = ''x'',
     ContentURL = [], Owner = []\<rparr>"

section \<open>The directive patcher\<close>

text \<open>
  Modelled from the spec: \<^verbatim>\<open>parseConfigFile(path, delimiter, desired)\<close>, the directive
  patcher that \<^verbatim>\<open>sshdSetup\<close> calls, is not in \<^verbatim>\<open>execute.go\<close>. The specification gives
  its algorithm: read the file line by line; split each non-empty line on the first
  occurrence of the delimiter into directive and rest; a line whose directive is a key
  of the desired mapping, at its first occurrence, is replaced by
  \<^verbatim>\<open>directive<delimiter>value\<close> and the key is marked as applied; every other line
  (no delimiter, directive not desired, or a later duplicate) is copied unchanged;
  after the scan every key not yet applied is appended as a new line. The model works
  on the content of the file: \<open>Patch content delimiter desired\<close> is the new content.
  The desired mapping is a list of entries with unique keys, in the order in which the
  unapplied ones are appended.
\<close>

text \<open>The lines of a text: each ends at a newline; a last line without one counts.\<close>

fun lines_acc :: "string \<Rightarrow> string \<Rightarrow> string list" where
  "lines_acc cur [] = (if cur = [] then [] else [rev cur])"
| "lines_acc cur (c # cs) =
     (if c = newline then rev cur # lines_acc [] cs else lines_acc (c # cur) cs)"

definition lines_of :: "string \<Rightarrow> string list" where
  "lines_of s = lines_acc [] s"

definition unlines :: "string list \<Rightarrow> string" where
  "unlines ls = concat (map (\<lambda>l. l @ [newline]) ls)"

text \<open>A line split on the first occurrence of the delimiter, if it has one.\<close>

fun split_first :: "string \<Rightarrow> string \<Rightarrow> (string \<times> string) option" where
  "split_first d [] = (if d = [] then Some ([], []) else None)"
| "split_first d (c # cs) =
     (if prefix d (c # cs) then Some ([], drop (length d) (c # cs))
      else map_option (\<lambda>(a, b). (c # a, b)) (split_first d cs))"

definition directive_of :: "string \<Rightarrow> string \<Rightarrow> string option" where
  "directive_of d l = (if l = [] then None else map_option fst (split_first d l))"

text \<open>One line of the scan: the line to write and the keys applied so far.\<close>

definition patch_line ::
  "string \<Rightarrow> (string \<times> string) list \<Rightarrow> string list \<Rightarrow> string \<Rightarrow> string \<times> string list" where
  "patch_line d desired applied l =
     (case directive_of d l of
        None \<Rightarrow> (l, applied)
      | Some k \<Rightarrow>
          (case map_of desired k of
             None \<Rightarrow> (l, applied)
           | Some v \<Rightarrow>
               if k \<in> set applied then (l, applied) else (k @ d @ v, k # applied)))"

fun scan ::
  "string \<Rightarrow> (string \<times> string) list \<Rightarrow> string list \<Rightarrow> string list \<Rightarrow> string list \<times> string list" where
  "scan d desired applied [] = ([], applied)"
| "scan d desired applied (l # ls) =
     (case patch_line d desired applied l of
        (l', applied1) \<Rightarrow>
          (case scan d desired applied1 ls of
             (rest, applied2) \<Rightarrow> (l' # rest, applied2)))"

definition patch_lines :: "string \<Rightarrow> (string \<times> string) list \<Rightarrow> string list \<Rightarrow> string list" where
  "patch_lines d desired ls =
     (case scan d desired [] ls of
        (rest, applied) \<Rightarrow>
          rest @ map (\<lambda>(k, v). k @ d @ v) (filter (\<lambda>(k, v). k \<notin> set applied) desired))"

definition Patch :: "string \<Rightarrow> string \<Rightarrow> (string \<times> string) list \<Rightarrow> string" where
  "Patch content d desired = unlines (patch_lines d desired (lines_of content))"

text \<open>
  An entry of the desired mapping that the patcher finds again: its line
  \<^verbatim>\<open>key<delimiter>value\<close> has no newline and splits back to the key.
\<close>

definition entry_ok :: "string \<Rightarrow> string \<times> string \<Rightarrow> bool" where
  "entry_ok d e = (case e of (k, v) \<Rightarrow>
     newline \<notin> set (k @ d @ v) \<and> directive_of d (k @ d @ v) = Some k)"

text \<open>An sshd configuration and two desired mappings for the examples.\<close>

definition sshd_config :: string where
  "sshd_config = ''Port 22'' @ [newline] @ ''# keys'' @ [newline] @ [newline] @
     ''PermitRootLogin yes'' @ [newline] @ ''PermitRootLogin maybe''"

definition sshd_desired :: "(string \<times> string) list" where
  "sshd_desired = [(''PermitRootLogin'', ''no''), (''PasswordAuthentication'', ''no'')]"

definition spaced_desired :: "(string \<times> string) list" where
  "spaced_desired = [(''Allow Users'', ''bob'')]"

section \<open>Properties of the steps\<close>

lemmas steps = ret_def emit_def call_def try_call_def try_step_def after_def

subsection \<open>Guards\<close>

text \<open>
  C6. A step whose guard is false (its section of the document is absent or empty)
  returns no error and adds nothing to the trace but, for the MTA and the disk step,
  its one log line: no external call, no filesystem call.
\<close>

theorem guard_false_no_calls:
  "(MTA d = None \<longrightarrow> mtaSetup env d tr = (None, tr @ [Log Debug [] ''No MTA configured'' []]))
 \<and> (ScratchDisk d = [] \<longrightarrow>
      diskSetup env d tr = (None, tr @ [Log Debug [] ''No Scratch Disk defined'' []]))
 \<and> (HostName (Network d) = [] \<longrightarrow> setHostname env d tr = (None, tr))
 \<and> (Proxy (Network d) = [] \<longrightarrow> proxySetup env d tr = (None, tr))
 \<and> (RootPasswd d = [] \<longrightarrow> rootPasswdSetup env d tr = Some (None, tr))
 \<and> (MOTD d = [] \<longrightarrow> setMOTD env d tr = (None, tr))
 \<and> ((case ResolvConf (Network d) of None \<Rightarrow> True | Some rc \<Rightarrow> NameServers rc = []) \<longrightarrow>
      dnsSetup env d tr = (None, tr))
 \<and> ((case NTP (Network d) of None \<Rightarrow> True | Some ntp \<Rightarrow> Pools ntp = [] \<and> Servers ntp = []) \<longrightarrow>
      ntpSetup env d tr = (None, tr))
 \<and> (AuthorizedKeys (SSHDConfig d) = [] \<longrightarrow> addSSHKeys env d tr = (None, tr))
 \<and> (WriteFiles d = [] \<longrightarrow> createFiles env d tr = (None, tr))"
  by (simp add: mtaSetup_def diskSetup_def setHostname_def proxySetup_def rootPasswdSetup_def
      setMOTD_def dnsSetup_def ntpSetup_def addSSHKeys_def createFiles_def steps returns_def
      split: option.splits)

theorem guard_false_no_calls_witness:
  "mtaSetup (host [''dockerd''] []) doc0 [Sleep 1] =
     (None, [Sleep 1, Log Debug [] ''No MTA configured'' []])
 \<and> diskSetup (host [''dockerd''] []) doc0 [Sleep 1] =
     (None, [Sleep 1, Log Debug [] ''No Scratch Disk defined'' []])
 \<and> setHostname (host [''dockerd''] []) doc0 [Sleep 1] = (None, [Sleep 1])
 \<and> proxySetup (host [''dockerd''] []) doc0 [Sleep 1] = (None, [Sleep 1])
 \<and> rootPasswdSetup (host [''dockerd''] []) doc0 [Sleep 1] = Some (None, [Sleep 1])
 \<and> setMOTD (host [''dockerd''] []) doc0 [Sleep 1] = (None, [Sleep 1])
 \<and> dnsSetup (host [''dockerd''] []) doc0 [Sleep 1] = (None, [Sleep 1])
 \<and> ntpSetup (host [''dockerd''] []) doc0 [Sleep 1] = (None, [Sleep 1])
 \<and> addSSHKeys (host [''dockerd''] []) doc0 [Sleep 1] = (None, [Sleep 1])
 \<and> createFiles (host [''dockerd''] []) doc0 [Sleep 1] = (None, [Sleep 1])"
  using guard_false_no_calls [of doc0 "host [''dockerd''] []" "[Sleep 1]"]
  by (simp add: doc0_def)

subsection \<open>The root password\<close>

text \<open>
  C9. With a non-empty password and the password tool started, the step writes the
  whole line \<^verbatim>\<open>root:<password>\n\<close> to the pipe, closes the writer after that write,
  waits for the tool and only then returns; what it returns is the result of the wait,
  so it is an error exactly when the wait reports one. When the tool could not be
  started, nothing reads the pipe, the write of the line never returns, and the step
  reports neither success nor an error.
\<close>

theorem rootPasswdSetup_order:
  "RootPasswd d \<noteq> [] \<Longrightarrow>
   (err (respond env tr (Start chpasswdCmd)) = None \<longrightarrow>
      rootPasswdSetup env d tr =
        Some (err (respond env
                (tr @ [Start chpasswdCmd, PipeWrite (''root:'' @ RootPasswd d @ [newline]),
                       PipeCloseWriter])
                (Wait chpasswdCmd)),
              tr @ [Start chpasswdCmd, PipeWrite (''root:'' @ RootPasswd d @ [newline]),
                    PipeCloseWriter, Wait chpasswdCmd, PipeCloseReader]))
 \<and> (err (respond env tr (Start chpasswdCmd)) \<noteq> None \<longrightarrow>
      rootPasswdSetup env d tr = None)"
  by (auto simp: rootPasswdSetup_def call_def emit_def returns_def blocks_def split: option.splits)

theorem rootPasswdSetup_order_witness:
  "rootPasswdSetup (host [] [''wait chpasswd'']) (doc0\<lparr>RootPasswd := ''secret''\<rparr>) [] =
     Some (Some (ExtError ''wait chpasswd''),
           [Start chpasswdCmd, PipeWrite (''root:secret'' @ [newline]), PipeCloseWriter,
            Wait chpasswdCmd, PipeCloseReader])
 \<and> rootPasswdSetup (host [] []) (doc0\<lparr>RootPasswd := ''secret''\<rparr>) [] =
     Some (None,
           [Start chpasswdCmd, PipeWrite (''root:secret'' @ [newline]), PipeCloseWriter,
            Wait chpasswdCmd, PipeCloseReader])
 \<and> rootPasswdSetup (host [] [''start chpasswd'']) (doc0\<lparr>RootPasswd := ''secret''\<rparr>) [] = None"
  using rootPasswdSetup_order [of "doc0\<lparr>RootPasswd := ''secret''\<rparr>" "host [] [''wait chpasswd'']" "[]"]
    rootPasswdSetup_order [of "doc0\<lparr>RootPasswd := ''secret''\<rparr>" "host [] []" "[]"]
    rootPasswdSetup_order [of "doc0\<lparr>RootPasswd := ''secret''\<rparr>" "host [] [''start chpasswd'']" "[]"]
  by (simp add: host_def doc0_def chpasswdCmd_def Command_def)

subsection \<open>The sshd step\<close>

text \<open>
  C1, as the code has it. When the patch of the sshd configuration and the
  authorized-keys sub-step succeed and the restart of the sshd service fails, the step
  returns the restart's error; the restart request is the last thing the step does,
  and it logs nothing.
\<close>

theorem sshdSetup_restart_failure_returned:
  "err (respond env tr
      (ParseConfigFile ''/etc/ssh/sshd_config'' '' '' (getSSHDKVMap env d))) = None \<Longrightarrow>
   addSSHKeys env d
      (tr @ [ParseConfigFile ''/etc/ssh/sshd_config'' '' '' (getSSHDKVMap env d)]) = (None, tr1) \<Longrightarrow>
   err (respond env tr1 (DoService ''sshd'' RESTART)) = Some x \<Longrightarrow>
   sshdSetup env d tr = (Some x, tr1 @ [DoService ''sshd'' RESTART])"
  by (simp add: sshdSetup_def steps split: option.splits)

theorem sshdSetup_restart_failure_returned_witness:
  "sshdSetup (host [] [''service sshd''])
     (doc0\<lparr>SSHDConfig := \<lparr>AuthorizedKeys = [''ssh-rsa AAAA'']\<rparr>\<rparr>) [] =
   (Some (ExtError ''service sshd''),
    [ParseConfigFile ''/etc/ssh/sshd_config'' '' '' [],
     OpenOrCreate ''/root/.ssh/authorized_keys'',
     WriteString ''/root/.ssh/authorized_keys'' (''ssh-rsa AAAA'' @ [newline]),
     CloseFile ''/root/.ssh/authorized_keys'',
     DoService ''sshd'' RESTART])"
  using sshdSetup_restart_failure_returned
    [of "host [] [''service sshd'']" "[]" "doc0\<lparr>SSHDConfig := \<lparr>AuthorizedKeys = [''ssh-rsa AAAA'']\<rparr>\<rparr>"
        "[ParseConfigFile ''/etc/ssh/sshd_config'' '' '' [],
          OpenOrCreate ''/root/.ssh/authorized_keys'',
          WriteString ''/root/.ssh/authorized_keys'' (''ssh-rsa AAAA'' @ [newline]),
          CloseFile ''/root/.ssh/authorized_keys'']"
        "ExtError ''service sshd''"]
  by (simp add: host_def doc0_def addSSHKeys_def steps)

text \<open>
  The claim as the specification words it (the restart's failure is swallowed) fails:
  on a host where only the sshd restart fails, the step returns that failure.
\<close>

theorem sshdSetup_restart_failure_counterexample:
  "sshdSetup (host [] [''service sshd'']) doc0 [] =
     (Some (ExtError ''service sshd''),
      [ParseConfigFile ''/etc/ssh/sshd_config'' '' '' [], DoService ''sshd'' RESTART])"
  by (simp add: sshdSetup_def addSSHKeys_def steps host_def doc0_def)

subsection \<open>Sequences of external calls\<close>

lemma external_calls_append [simp]:
  "external_calls (a @ b) = external_calls a @ external_calls b"
  by (simp add: external_calls_def)

lemma external_calls_Cons [simp]:
  "external_calls (e # b) = (if is_log e then external_calls b else e # external_calls b)"
  by (simp add: external_calls_def)

lemma external_calls_Nil [simp]: "external_calls [] = []"
  by (simp add: external_calls_def)

lemma issuesI:
  assumes "\<And>tr. prefix (external_calls tr) (external_calls (snd (m tr)))"
    and "\<And>tr. prefix (external_calls (snd (m tr))) (external_calls tr @ F)"
    and "\<And>tr. fst (m tr) = None \<Longrightarrow> external_calls (snd (m tr)) = external_calls tr @ F"
    and "\<And>tr. all_succeed env \<Longrightarrow> fst (m tr) = None"
  shows "issues env m F"
  unfolding issues_def using assms by blast

lemma issuesD:
  assumes "issues env m F"
  shows "prefix (external_calls tr) (external_calls (snd (m tr)))"
    and "prefix (external_calls (snd (m tr))) (external_calls tr @ F)"
    and "fst (m tr) = None \<Longrightarrow> external_calls (snd (m tr)) = external_calls tr @ F"
    and "all_succeed env \<Longrightarrow> fst (m tr) = None"
  using assms unfolding issues_def by blast+

lemma issues_ret: "issues env (ret None) []"
  by (rule issuesI) (simp_all add: ret_def)

lemma issues_log: 
  assumes "issues env k F" shows "issues env (emit (Log l fs f as) k) F"
proof (rule issuesI)
  fix tr
  let ?t = "tr @ [Log l fs f as]"
  have ec: "external_calls ?t = external_calls tr" by simp
  show "prefix (external_calls tr) (external_calls (snd (emit (Log l fs f as) k tr)))"
    using issuesD(1)[OF assms, of ?t] unfolding emit_def ec .
  show "prefix (external_calls (snd (emit (Log l fs f as) k tr))) (external_calls tr @ F)"
    using issuesD(2)[OF assms, of ?t] unfolding emit_def ec .
  show "fst (emit (Log l fs f as) k tr) = None \<Longrightarrow> external_calls (snd (emit (Log l fs f as) k tr)) = external_calls tr @ F"
    using issuesD(3)[OF assms, of ?t] unfolding emit_def ec .
  show "all_succeed env \<Longrightarrow> fst (emit (Log l fs f as) k tr) = None"
    using issuesD(4)[OF assms, of ?t] unfolding emit_def .
qed

lemma try_call_eq:
  "try_call env e k tr =
     (case err (respond env tr e) of
        Some x \<Rightarrow> (Some x, tr @ [e])
      | None \<Rightarrow> k (respond env tr e) (tr @ [e]))"
  by (simp add: try_call_def call_def ret_def split: option.splits)

lemma not_all_succeed: "err (respond env h e) = Some x \<Longrightarrow> \<not> all_succeed env"
  unfolding all_succeed_def by (metis option.distinct(1))

lemma issues_try_call:
  assumes nl: "\<not> is_log e" and k: "\<And>r. issues env (k r) F"
  shows "issues env (try_call env e k) (e # F)"
proof (rule issuesI)
  fix tr
  let ?r = "respond env tr e"
  let ?t = "tr @ [e]"
  have ec: "external_calls ?t = external_calls tr @ [e]" using nl by simp
  note D = issuesD[OF k[of ?r], of ?t, unfolded ec]
  show "prefix (external_calls tr) (external_calls (snd (try_call env e k tr)))"
  proof (cases "err ?r")
    case (Some x) then show ?thesis by (simp add: try_call_eq ec del: external_calls_append)
  next
    case None then show ?thesis using D(1) by (simp add: try_call_eq append_prefixD)
  qed
  show "prefix (external_calls (snd (try_call env e k tr))) (external_calls tr @ e # F)"
  proof (cases "err ?r")
    case (Some x) then show ?thesis by (simp add: try_call_eq ec del: external_calls_append)
  next
    case None then show ?thesis using D(2) by (simp add: try_call_eq)
  qed
  show "external_calls (snd (try_call env e k tr)) = external_calls tr @ e # F"
    if "fst (try_call env e k tr) = None"
  proof (cases "err ?r")
    case (Some x) then show ?thesis using that by (simp add: try_call_eq)
  next
    case None then show ?thesis using D(3) that by (simp add: try_call_eq)
  qed
  show "fst (try_call env e k tr) = None" if "all_succeed env"
  proof (cases "err ?r")
    case (Some x) then show ?thesis using that not_all_succeed by blast
  next
    case None then show ?thesis using D(4) that by (simp add: try_call_eq)
  qed
qed

lemma try_step_eq:
  "try_step m k tr = (if fst (m tr) = None then k (snd (m tr)) else m tr)"
  by (cases "m tr") (auto simp: try_step_def split: option.splits)

lemma issues_try_step:
  assumes m: "issues env m F" and k: "issues env k G"
  shows "issues env (try_step m k) (F @ G)"
proof (rule issuesI)
  fix tr
  note M = issuesD[OF m, of tr]
  note K = issuesD[OF k, of "snd (m tr)"]
  show "prefix (external_calls tr) (external_calls (snd (try_step m k tr)))"
    using M(1) K(1) by (auto simp: try_step_eq intro: prefix_order.trans)
  show "prefix (external_calls (snd (try_step m k tr))) (external_calls tr @ F @ G)"
  proof (cases "fst (m tr) = None")
    case True
    then show ?thesis using M(3) K(2) by (simp add: try_step_eq)
  next
    case False
    have "prefix (external_calls tr @ F) (external_calls tr @ F @ G)" by simp
    then show ?thesis using False M(2) by (auto simp: try_step_eq intro: prefix_order.trans)
  qed
  show "external_calls (snd (try_step m k tr)) = external_calls tr @ F @ G"
    if "fst (try_step m k tr) = None"
    using that M(3) K(3) by (auto simp: try_step_eq split: if_splits)
  show "fst (try_step m k tr) = None" if "all_succeed env"
    using that M(4) K(4) by (simp add: try_step_eq)
qed

lemma issues_eq: "(\<And>tr. m tr = m' tr) \<Longrightarrow> issues env m' F \<Longrightarrow> issues env m F"
  by (simp add: issues_def)

lemma issues_apk_del: "issues env (apk_del env ps) (map (\<lambda>p. Run (Command ''apk'' [''del'', p])) ps)"
proof (induction ps)
  case Nil
  show ?case by (rule issuesI) simp_all
next
  case (Cons p ps)
  have "issues env (emit (Log Debug [(''package'', FStr p)] ''Executing apk del'' []) (
     try_call env (Run (Command ''apk'' [''del'', p])) (\<lambda>_. apk_del env ps)))
     (Run (Command ''apk'' [''del'', p]) # map (\<lambda>p. Run (Command ''apk'' [''del'', p])) ps)"
    by (rule issues_log, rule issues_try_call) (simp, rule Cons.IH)
  moreover have "apk_del env (p # ps) tr =
     emit (Log Debug [(''package'', FStr p)] ''Executing apk del'' []) (
     try_call env (Run (Command ''apk'' [''del'', p])) (\<lambda>_. apk_del env ps)) tr" for tr
    by simp
  ultimately show ?case using issues_eq by simp
qed

lemma issues_apk_add: "issues env (apk_add env ps) (map (\<lambda>p. Run (Command ''apk'' [''add'', p])) ps)"
proof (induction ps)
  case Nil
  show ?case by (rule issuesI) simp_all
next
  case (Cons p ps)
  have "issues env (emit (Log Debug [(''package'', FStr p)] ''Executing apk add'' []) (
     try_call env (Run (Command ''apk'' [''add'', p])) (\<lambda>_. apk_add env ps)))
     (Run (Command ''apk'' [''add'', p]) # map (\<lambda>p. Run (Command ''apk'' [''add'', p])) ps)"
    by (rule issues_log, rule issues_try_call) (simp, rule Cons.IH)
  moreover have "apk_add env (p # ps) tr =
     emit (Log Debug [(''package'', FStr p)] ''Executing apk add'' []) (
     try_call env (Run (Command ''apk'' [''add'', p])) (\<lambda>_. apk_add env ps)) tr" for tr
    by simp
  ultimately show ?case using issues_eq by simp
qed

lemma issues_apk_update:
  "issues env (apk_update env d) (if Update (Packages d) then [Run (Command ''apk'' [''update''])] else [])"
proof (cases "Update (Packages d)")
  case True
  have "issues env (emit (Log Debug [] ''Executing apk update'' []) (
        try_call env (Run (Command ''apk'' [''update''])) (\<lambda>_. ret None))) [Run (Command ''apk'' [''update''])]"
    by (rule issues_log, rule issues_try_call) (simp, rule issues_ret)
  then show ?thesis using True by (simp add: apk_update_def)
next
  case False
  then show ?thesis using issues_ret by (simp add: apk_update_def)
qed

lemma issues_apk_upgrade:
  "issues env (apk_upgrade env d) (if Upgrade (Packages d) then [Run (Command ''apk'' [''upgrade''])] else [])"
proof (cases "Upgrade (Packages d)")
  case True
  have "issues env (emit (Log Debug [] ''Executing apk upgrade'' []) (
        try_call env (Run (Command ''apk'' [''upgrade''])) (\<lambda>_. ret None))) [Run (Command ''apk'' [''upgrade''])]"
    by (rule issues_log, rule issues_try_call) (simp, rule issues_ret)
  then show ?thesis using True by (simp add: apk_upgrade_def)
next
  case False
  then show ?thesis using issues_ret by (simp add: apk_upgrade_def)
qed

lemma issues_setupAPK_rest:
  "issues env
     (emit (Log Debug [] ''Setting up repositories'' []) (
      try_call env (Run (Command ''mv'' [rfile, ''/etc/apk/repositories''])) (\<lambda>_.
      try_step (apk_update env d) (
      try_step (apk_upgrade env d) (
      try_step (apk_del env (Uninstall (Packages d))) (
      try_step (apk_add env (Install (Packages d))) (
      ret None)))))))
     (tl (apk_calls rfile d))"
proof -
  have "issues env
     (try_step (apk_update env d) (
      try_step (apk_upgrade env d) (
      try_step (apk_del env (Uninstall (Packages d))) (
      try_step (apk_add env (Install (Packages d))) (
      ret None)))))
     ((if Update (Packages d) then [Run (Command ''apk'' [''update''])] else [])
     @ (if Upgrade (Packages d) then [Run (Command ''apk'' [''upgrade''])] else [])
     @ map (\<lambda>p. Run (Command ''apk'' [''del'', p])) (Uninstall (Packages d))
     @ map (\<lambda>p. Run (Command ''apk'' [''add'', p])) (Install (Packages d)) @ [])"
    by (intro issues_try_step issues_apk_update issues_apk_upgrade issues_apk_del issues_apk_add issues_ret)
  then have "issues env
     (emit (Log Debug [] ''Setting up repositories'' []) (
      try_call env (Run (Command ''mv'' [rfile, ''/etc/apk/repositories''])) (\<lambda>_.
      try_step (apk_update env d) (
      try_step (apk_upgrade env d) (
      try_step (apk_del env (Uninstall (Packages d))) (
      try_step (apk_add env (Install (Packages d))) (
      ret None)))))))
     (Run (Command ''mv'' [rfile, ''/etc/apk/repositories'']) #
      ((if Update (Packages d) then [Run (Command ''apk'' [''update''])] else [])
     @ (if Upgrade (Packages d) then [Run (Command ''apk'' [''upgrade''])] else [])
     @ map (\<lambda>p. Run (Command ''apk'' [''del'', p])) (Uninstall (Packages d))
     @ map (\<lambda>p. Run (Command ''apk'' [''add'', p])) (Install (Packages d)) @ []))"
    by (intro issues_log issues_try_call) simp_all
  then show ?thesis by (simp add: apk_calls_def)
qed

subsection \<open>The package step\<close>

text \<open>
  C3. From any trace and on any host, the external calls of the package step are an
  initial part of: render the repositories file, move it to \<^verbatim>\<open>/etc/apk/repositories\<close>,
  \<^verbatim>\<open>apk update\<close> if asked, \<^verbatim>\<open>apk upgrade\<close> if asked, \<^verbatim>\<open>apk del\<close> for each package
  to uninstall in order, \<^verbatim>\<open>apk add\<close> for each package to install in order (a failing
  call ends the step there). On a host where no call fails the step returns no error
  and its external calls are exactly that sequence; for update and upgrade set,
  Install \<open>[a, b]\<close> and Uninstall \<open>[c]\<close> it is: render, move, update, upgrade,
  del c, add a, add b.
\<close>

theorem setupAPK_call_sequence:
  "prefix (external_calls (snd (setupAPK env d tr)))
      (external_calls tr @
       apk_calls (out (respond env tr (GenerateFile repoFile (ReposData (Repositories (Packages d)))))) d)
 \<and> (all_succeed env \<longrightarrow>
       fst (setupAPK env d tr) = None \<and>
       external_calls (snd (setupAPK env d tr)) =
         external_calls tr @
         apk_calls (out (respond env tr (GenerateFile repoFile (ReposData (Repositories (Packages d)))))) d)
 \<and> (all_succeed env \<and> Update (Packages d) \<and> Upgrade (Packages d) \<and>
      Install (Packages d) = [''a'', ''b''] \<and> Uninstall (Packages d) = [''c''] \<longrightarrow>
      fst (setupAPK env d tr) = None \<and>
      external_calls (snd (setupAPK env d tr)) =
        external_calls tr @
        [GenerateFile repoFile (ReposData (Repositories (Packages d))),
         Run (Command ''mv''
           [out (respond env tr (GenerateFile repoFile (ReposData (Repositories (Packages d))))),
            ''/etc/apk/repositories'']),
         Run (Command ''apk'' [''update'']),
         Run (Command ''apk'' [''upgrade'']),
         Run (Command ''apk'' [''del'', ''c'']),
         Run (Command ''apk'' [''add'', ''a'']),
         Run (Command ''apk'' [''add'', ''b''])])"
proof -
  let ?G = "GenerateFile repoFile (ReposData (Repositories (Packages d)))"
  let ?r = "respond env tr ?G"
  have "issues env (try_call env ?G (\<lambda>rfile.
      emit (Log Debug [] ''Setting up repositories'' []) (
      try_call env (Run (Command ''mv'' [out ?r, ''/etc/apk/repositories''])) (\<lambda>_.
      try_step (apk_update env d) (
      try_step (apk_upgrade env d) (
      try_step (apk_del env (Uninstall (Packages d))) (
      try_step (apk_add env (Install (Packages d))) (
      ret None)))))))) (?G # tl (apk_calls (out ?r) d))"
    by (rule issues_try_call) (simp, rule issues_setupAPK_rest)
  then have i: "issues env (try_call env ?G (\<lambda>rfile.
      emit (Log Debug [] ''Setting up repositories'' []) (
      try_call env (Run (Command ''mv'' [out ?r, ''/etc/apk/repositories''])) (\<lambda>_.
      try_step (apk_update env d) (
      try_step (apk_upgrade env d) (
      try_step (apk_del env (Uninstall (Packages d))) (
      try_step (apk_add env (Install (Packages d))) (
      ret None)))))))) (apk_calls (out ?r) d)"
    by (simp add: apk_calls_def)
  have unf: "setupAPK env d tr = try_call env ?G (\<lambda>rfile.
      emit (Log Debug [] ''Setting up repositories'' []) (
      try_call env (Run (Command ''mv'' [out ?r, ''/etc/apk/repositories''])) (\<lambda>_.
      try_step (apk_update env d) (
      try_step (apk_upgrade env d) (
      try_step (apk_del env (Uninstall (Packages d))) (
      try_step (apk_add env (Install (Packages d))) (
      ret None))))))) tr"
    unfolding setupAPK_def by (simp add: try_call_eq)
  note D = issuesD(2,3,4)[OF i, of tr, folded unf]
  have conc: "Update (Packages d) \<and> Upgrade (Packages d) \<and>
      Install (Packages d) = [''a'', ''b''] \<and> Uninstall (Packages d) = [''c''] \<longrightarrow>
      apk_calls (out ?r) d =
        [?G,
         Run (Command ''mv'' [out ?r, ''/etc/apk/repositories'']),
         Run (Command ''apk'' [''update'']),
         Run (Command ''apk'' [''upgrade'']),
         Run (Command ''apk'' [''del'', ''c'']),
         Run (Command ''apk'' [''add'', ''a'']),
         Run (Command ''apk'' [''add'', ''b''])]"
    by (simp add: apk_calls_def)
  have 1: "prefix (external_calls (snd (setupAPK env d tr))) (external_calls tr @ apk_calls (out ?r) d)"
    using D(1) .
  have 2: "all_succeed env \<longrightarrow>
       fst (setupAPK env d tr) = None \<and>
       external_calls (snd (setupAPK env d tr)) = external_calls tr @ apk_calls (out ?r) d"
    using D(2,3) by simp
  have 3: "all_succeed env \<and> Update (Packages d) \<and> Upgrade (Packages d) \<and>
      Install (Packages d) = [''a'', ''b''] \<and> Uninstall (Packages d) = [''c''] \<longrightarrow>
      fst (setupAPK env d tr) = None \<and>
      external_calls (snd (setupAPK env d tr)) =
        external_calls tr @
        [?G,
         Run (Command ''mv'' [out ?r, ''/etc/apk/repositories'']),
         Run (Command ''apk'' [''update'']),
         Run (Command ''apk'' [''upgrade'']),
         Run (Command ''apk'' [''del'', ''c'']),
         Run (Command ''apk'' [''add'', ''a'']),
         Run (Command ''apk'' [''add'', ''b''])]"
    using 2 conc by metis
  from 1 2 3 show ?thesis by blast
qed

theorem setupAPK_call_sequence_witness:
  "fst (setupAPK (host [] []) doc_packages []) = None \<and>
   external_calls (snd (setupAPK (host [] []) doc_packages [])) =
     [GenerateFile repoFile (ReposData []),
      Run (Command ''mv'' [''/tmp/lift-rendered'', ''/etc/apk/repositories'']),
      Run (Command ''apk'' [''update'']),
      Run (Command ''apk'' [''upgrade'']),
      Run (Command ''apk'' [''del'', ''c'']),
      Run (Command ''apk'' [''add'', ''a'']),
      Run (Command ''apk'' [''add'', ''b''])]"
proof -
  have ok: "all_succeed (host [] [])"
    by (simp add: all_succeed_def host_def)
  have pk: "Update (Packages doc_packages) \<and> Upgrade (Packages doc_packages) \<and>
      Install (Packages doc_packages) = [''a'', ''b''] \<and> Uninstall (Packages doc_packages) = [''c'']"
    by (simp add: doc_packages_def doc0_def)
  have rs: "Repositories (Packages doc_packages) = []"
    by (simp add: doc_packages_def doc0_def)
  have o: "out (respond (host [] []) [] (GenerateFile repoFile (ReposData []))) = ''/tmp/lift-rendered''"
    by (simp add: host_def)
  note run = setupAPK_call_sequence [of "host [] []" doc_packages "[]",
      THEN conjunct2, THEN conjunct2, THEN mp, OF conjI [OF ok pk]]
  then show ?thesis by (simp add: rs o)
qed

subsection \<open>The hostname step\<close>

lemma split_hd: "strings_Split s c = takeWhile (\<lambda>x. x \<noteq> c) s # tl (strings_Split s c)"
  by (induction s) (auto split: list.splits)

text \<open>
  C4. For a non-empty host name the short name is the text before the first dot, and
  from any trace and on any host what the step adds to the trace is an initial part
  of: \<^verbatim>\<open>hostname <short>\<close>, \<^verbatim>\<open>setup-hostname -n <short>\<close>, the hosts file opened,
  the line \<^verbatim>\<open>127.0.0.1\t<fqdn> <short>\n\<close> written to it, the file closed (a failing
  call ends the step there). On a host where no call fails the step returns no error
  and adds exactly these five calls. For \<^verbatim>\<open>web01.example.com\<close> the short name is
  \<^verbatim>\<open>web01\<close> and the line is \<^verbatim>\<open>127.0.0.1\tweb01.example.com web01\n\<close>.
\<close>

theorem setHostname_calls:
  assumes "HostName (Network d) \<noteq> []"
  shows "prefix (snd (setHostname env d tr)) (tr @ hostname_calls (HostName (Network d)))
    \<and> (all_succeed env \<longrightarrow>
         setHostname env d tr = (None, tr @ hostname_calls (HostName (Network d))))
    \<and> (all_succeed env \<and> HostName (Network d) = ''web01.example.com'' \<longrightarrow>
         setHostname env d tr =
           (None,
            tr @ [Run (Command ''hostname'' [''web01'']),
                  Run (Command ''setup-hostname'' [''-n'', ''web01'']),
                  OpenOrCreate ''/etc/hosts'',
                  WriteString ''/etc/hosts''
                    (''127.0.0.1'' @ [tab] @ ''web01.example.com web01'' @ [newline]),
                  CloseFile ''/etc/hosts'']))"
proof -
  obtain ws where sp:
    "strings_Split (HostName (Network d)) (CHR ''.'') = short_name (HostName (Network d)) # ws"
    using split_hd [of "HostName (Network d)" "CHR ''.''"] by (simp add: short_name_def)
  have run: "prefix (snd (setHostname env d tr)) (tr @ hostname_calls (HostName (Network d)))
    \<and> (all_succeed env \<longrightarrow>
         setHostname env d tr = (None, tr @ hostname_calls (HostName (Network d))))"
    using assms
    by (simp add: setHostname_def sp steps hostname_calls_def hosts_line_def all_succeed_def
        split: option.splits)
  have web: "hostname_calls ''web01.example.com'' =
      [Run (Command ''hostname'' [''web01'']),
       Run (Command ''setup-hostname'' [''-n'', ''web01'']),
       OpenOrCreate ''/etc/hosts'',
       WriteString ''/etc/hosts'' (''127.0.0.1'' @ [tab] @ ''web01.example.com web01'' @ [newline]),
       CloseFile ''/etc/hosts'']"
    by (simp add: hostname_calls_def hosts_line_def short_name_def)
  from run web show ?thesis by metis
qed

theorem setHostname_calls_witness:
  "setHostname (host [] []) doc_web01 [] =
     (None,
      [Run (Command ''hostname'' [''web01'']),
       Run (Command ''setup-hostname'' [''-n'', ''web01'']),
       OpenOrCreate ''/etc/hosts'',
       WriteString ''/etc/hosts'' (''127.0.0.1'' @ [tab] @ ''web01.example.com web01'' @ [newline]),
       CloseFile ''/etc/hosts''])"
proof -
  have ok: "all_succeed (host [] [])"
    by (simp add: all_succeed_def host_def)
  have hn: "HostName (Network doc_web01) = ''web01.example.com''"
    by (simp add: doc_web01_def doc0_def)
  then have ne: "HostName (Network doc_web01) \<noteq> []" by simp
  note run = setHostname_calls [OF ne, of "host [] []" "[]",
      THEN conjunct2, THEN conjunct2, THEN mp, OF conjI [OF ok hn]]
  then show ?thesis by simp
qed

subsection \<open>The disk step\<close>

lemma scan_procs_eq:
  "scan_procs env ps dp tr = (dp \<or> docker_detected env ps, tr @ proc_logs env ps)"
  by (induction ps arbitrary: dp tr) (auto simp: docker_detected_def)

lemma unmount_var_eq: "unmount_var ms tr = tr @ umount_events ms"
  by (induction ms arbitrary: tr) auto

lemma key_proc_logs [simp]: "docker_and_disk_calls env d (proc_logs env ps) = []"
  by (induction ps) (simp_all add: docker_and_disk_calls_def)

lemma key_umount [simp]: "docker_and_disk_calls env d (umount_events ms) = []"
  by (induction ms) (simp_all add: docker_and_disk_calls_def Command_def setup_disk_cmd_def)

lemma key_append [simp]:
  "docker_and_disk_calls env d (a @ b) = docker_and_disk_calls env d a @ docker_and_disk_calls env d b"
  by (simp add: docker_and_disk_calls_def)

lemma key_Cons [simp]:
  "docker_and_disk_calls env d (e # b) =
     (if e = DoService ''docker'' STOP \<or> e = DoService ''docker'' START \<or> e = Run (setup_disk_cmd env d)
      then e # docker_and_disk_calls env d b else docker_and_disk_calls env d b)"
  by (simp add: docker_and_disk_calls_def)

lemma key_Nil [simp]: "docker_and_disk_calls env d [] = []"
  by (simp add: docker_and_disk_calls_def)

lemma new_events_append [simp]: "new_events tr (tr @ evs) = evs"
  by (simp add: new_events_def)

lemma other_not_setup [simp]:
  "Command ''cat'' [''/proc/swap''] \<noteq> setup_disk_cmd env d"
  "Command ''swapon'' [''-a''] \<noteq> setup_disk_cmd env d"
  by (simp_all add: Command_def setup_disk_cmd_def)

lemma diskSetup_procs_fail:
  assumes "ScratchDisk d \<noteq> []"
    and "err (respond env (tr @ [Log Debug [] ''Check if Docker is running'' [], Sleep 3]) Processes) = Some x"
  shows "diskSetup env d tr = (Some x, tr @ [Log Debug [] ''Check if Docker is running'' [], Sleep 3, Processes])"
  using assms by (simp add: diskSetup_def emit_def try_call_eq)

lemma diskSetup_procs_ok:
  assumes "ScratchDisk d \<noteq> []"
    and "err (respond env (tr @ [Log Debug [] ''Check if Docker is running'' [], Sleep 3]) Processes) = None"
    and "ps = names (respond env (tr @ [Log Debug [] ''Check if Docker is running'' [], Sleep 3]) Processes)"
    and "h1 = tr @ [Log Debug [] ''Check if Docker is running'' [], Sleep 3, Processes,
                   Log Debug [(''numprocs'', FNat (length ps))] ''Fetch process list'' []]
                @ proc_logs env ps
                @ (if docker_detected env ps then [Log Info [] ''Stopping Docker...'' [], DoService ''docker'' STOP, Sleep 2] else [])"
    and "h2 = h1 @ [GetMounts] @ umount_events (names (respond env h1 GetMounts))
                    @ [Log Debug [(''disk'', FStr (ScratchDisk d))] ''Setup Scratch Disk'' []]"
  shows "diskSetup env d tr =
      try_call env (Run (setup_disk_cmd env d)) (\<lambda>_.
           after (start_docker (docker_detected env ps)) (
           call env (Output (Command ''cat'' [''/proc/swap''])) (\<lambda>swap.
           case err swap of
             Some _ \<Rightarrow> ret None
           | None \<Rightarrow>
               if \<not> strings_Contains (out swap) (ScratchDisk d)
               then call env (Run (Command ''swapon'' [''-a''])) (\<lambda>_. ret None)
               else ret None))) h2"
  using assms(1,2) unfolding assms(3,4,5)
  by (simp add: diskSetup_def emit_def try_call_eq[of _ Processes] scan_procs_eq after_def call_def unmount_var_eq stop_docker_def)

lemma disk_tail_fail:
  assumes "err (respond env h2 (Run (setup_disk_cmd env d))) = Some x"
  shows "try_call env (Run (setup_disk_cmd env d)) k h2 = (Some x, h2 @ [Run (setup_disk_cmd env d)])"
  using assms by (simp add: try_call_eq)

lemma disk_tail_ok:
  assumes "err (respond env h2 (Run (setup_disk_cmd env d))) = None"
  shows "\<exists>rest. try_call env (Run (setup_disk_cmd env d)) (\<lambda>_.
           after (start_docker dp) (
           call env (Output (Command ''cat'' [''/proc/swap''])) (\<lambda>swap.
           case err swap of
             Some _ \<Rightarrow> ret None
           | None \<Rightarrow>
               if \<not> strings_Contains (out swap) (ScratchDisk d)
               then call env (Run (Command ''swapon'' [''-a''])) (\<lambda>_. ret None)
               else ret None))) h2 =
         (None, h2 @ [Run (setup_disk_cmd env d)]
                   @ (if dp then [Log Info [] ''Starting Docker...'' [], DoService ''docker'' START] else [])
                   @ Output (Command ''cat'' [''/proc/swap'']) # rest)
         \<and> (rest = [] \<or> rest = [Run (Command ''swapon'' [''-a''])])"
  using assms
  by (simp add: try_call_eq after_def call_def ret_def start_docker_def split: option.splits)

lemma no_service_proc_logs: "DoService s a \<notin> set (proc_logs env ps)"
  by (induction ps) simp_all

lemma no_service_umount: "DoService s a \<notin> set (umount_events ms)"
  by (induction ms) simp_all

text \<open>
  C8, as the code has it. When no executable name of the process list contains
  \<^verbatim>\<open>docker\<close> after lower-casing by \<^verbatim>\<open>strings.ToLower\<close> (the code compares
  lower-cased names), the disk step issues no request of any kind for the docker
  service: no stop, no start, no restart. This holds on every host, whatever its
  lower-casing function does to letters outside ASCII, and for every document.
\<close>

theorem diskSetup_no_docker_no_service_request:
  assumes "\<not> docker_detected env
     (names (respond env (tr @ [Log Debug [] ''Check if Docker is running'' [], Sleep 3]) Processes))"
  shows "DoService ''docker'' a \<notin> set (new_events tr (snd (diskSetup env d tr)))"
proof (cases "ScratchDisk d = []")
  case True
  then show ?thesis by (simp add: diskSetup_def emit_def ret_def)
next
  case guard: False
  let ?h0 = "tr @ [Log Debug [] ''Check if Docker is running'' [], Sleep 3]"
  show ?thesis
  proof (cases "err (respond env ?h0 Processes)")
    case (Some x)
    show ?thesis by (simp add: diskSetup_procs_fail[OF guard Some])
  next
    case None
    define ps where "ps = names (respond env ?h0 Processes)"
    define h1 where "h1 = tr @ [Log Debug [] ''Check if Docker is running'' [], Sleep 3, Processes,
                   Log Debug [(''numprocs'', FNat (length ps))] ''Fetch process list'' []]
                @ proc_logs env ps
                @ (if docker_detected env ps then [Log Info [] ''Stopping Docker...'' [], DoService ''docker'' STOP, Sleep 2] else [])"
    define h2 where "h2 = h1 @ [GetMounts] @ umount_events (names (respond env h1 GetMounts))
                    @ [Log Debug [(''disk'', FStr (ScratchDisk d))] ''Setup Scratch Disk'' []]"
    note unf = diskSetup_procs_ok[OF guard None ps_def h1_def h2_def]
    have nd: "\<not> docker_detected env ps" using assms by (simp add: ps_def)
    have h2new: "h2 = tr @ new_events tr h2" "DoService ''docker'' a \<notin> set (new_events tr h2)"
      using nd by (simp_all add: h2_def h1_def no_service_proc_logs no_service_umount)
    show ?thesis
    proof (cases "err (respond env h2 (Run (setup_disk_cmd env d)))")
      case (Some x)
      have "new_events tr (snd (diskSetup env d tr)) = new_events tr h2 @ [Run (setup_disk_cmd env d)]"
        unfolding unf disk_tail_fail[OF Some] by (subst h2new(1)) simp
      then show ?thesis using h2new(2) by simp
    next
      case None
      from disk_tail_ok[OF None, of "docker_detected env ps"] obtain rest where
        r: "diskSetup env d tr = (None, h2 @ [Run (setup_disk_cmd env d)] @ Output (Command ''cat'' [''/proc/swap'']) # rest)"
        "rest = [] \<or> rest = [Run (Command ''swapon'' [''-a''])]"
        unfolding unf using nd by auto
      have "new_events tr (snd (diskSetup env d tr)) =
          new_events tr h2 @ [Run (setup_disk_cmd env d)] @ Output (Command ''cat'' [''/proc/swap'']) # rest"
        unfolding r by (subst h2new(1)) simp
      then show ?thesis using h2new(2) r(2) by auto
    qed
  qed
qed

theorem diskSetup_no_docker_no_service_request_witness:
  "DoService ''docker'' STOP \<notin> set (new_events [] (snd (diskSetup (host [''sshd'', ''crond''] []) doc_disk [])))
  \<and> DoService ''docker'' START \<notin> set (new_events [] (snd (diskSetup (host [''sshd'', ''crond''] []) doc_disk [])))"
proof -
  have "\<not> docker_detected (host [''sshd'', ''crond''] []) (names (respond (host [''sshd'', ''crond''] []) ([] @ [Log Debug [] ''Check if Docker is running'' [], Sleep 3]) Processes))"
    by (simp add: host_def docker_detected_def ascii_ToLower_def lower_byte_def)
  from diskSetup_no_docker_no_service_request [OF this] show ?thesis by simp
qed

text \<open>
  The claim as worded, with the name itself containing \<^verbatim>\<open>docker\<close>, fails: the name
  \<^verbatim>\<open>Docker\<close> does not contain \<^verbatim>\<open>docker\<close>, and with it as the only process the step
  stops and starts the docker service.
\<close>

theorem diskSetup_mixed_case_docker_counterexample:
  "\<not> strings_Contains ''Docker'' ''docker''
 \<and> external_calls (snd (diskSetup (host [''Docker''] []) doc_disk [])) =
     [Sleep 3, Processes, DoService ''docker'' STOP, Sleep 2, GetMounts,
      Run (setup_disk_cmd (host [''Docker''] []) doc_disk), DoService ''docker'' START,
      Output (Command ''cat'' [''/proc/swap'']), Run (Command ''swapon'' [''-a''])]"
  by (simp add: diskSetup_def steps host_def doc_disk_def doc0_def stop_docker_def start_docker_def
      ascii_ToLower_def lower_byte_def setup_disk_cmd_def Command_def external_calls_def)

text \<open>
  C2, as the code has it. When the process list was read and a docker process was
  detected, the step stops the docker service, then invokes disk setup, and issues the
  start request after it exactly when the step returns no error; the step returns no
  error when the disk-setup invocation succeeds and returns the invocation's error
  when it fails. So the restart follows a successful disk setup only.
\<close>

theorem diskSetup_restart_only_after_success:
  assumes guard: "ScratchDisk d \<noteq> []"
    and ok: "err (respond env (tr @ [Log Debug [] ''Check if Docker is running'' [], Sleep 3]) Processes) = None"
    and det: "docker_detected env
       (names (respond env (tr @ [Log Debug [] ''Check if Docker is running'' [], Sleep 3]) Processes))"
  shows "docker_and_disk_calls env d (new_events tr (snd (diskSetup env d tr))) =
           [DoService ''docker'' STOP, Run (setup_disk_cmd env d)] @
           (if fst (diskSetup env d tr) = None then [DoService ''docker'' START] else [])
    \<and> ((\<forall>h. err (respond env h (Run (setup_disk_cmd env d))) = None) \<longrightarrow>
          fst (diskSetup env d tr) = None)
    \<and> ((\<forall>h. err (respond env h (Run (setup_disk_cmd env d))) = Some x) \<longrightarrow>
          fst (diskSetup env d tr) = Some x)"
proof -
  let ?h0 = "tr @ [Log Debug [] ''Check if Docker is running'' [], Sleep 3]"
  define ps where "ps = names (respond env ?h0 Processes)"
  define h1 where "h1 = tr @ [Log Debug [] ''Check if Docker is running'' [], Sleep 3, Processes,
                 Log Debug [(''numprocs'', FNat (length ps))] ''Fetch process list'' []]
              @ proc_logs env ps
              @ (if docker_detected env ps then [Log Info [] ''Stopping Docker...'' [], DoService ''docker'' STOP, Sleep 2] else [])"
  define h2 where "h2 = h1 @ [GetMounts] @ umount_events (names (respond env h1 GetMounts))
                  @ [Log Debug [(''disk'', FStr (ScratchDisk d))] ''Setup Scratch Disk'' []]"
  note unf = diskSetup_procs_ok[OF guard ok ps_def h1_def h2_def]
  have dp: "docker_detected env ps" using det by (simp add: ps_def)
  have h2new: "h2 = tr @ new_events tr h2"
    "docker_and_disk_calls env d (new_events tr h2) = [DoService ''docker'' STOP]"
    using dp by (simp_all add: h2_def h1_def)
  show ?thesis
  proof (cases "err (respond env h2 (Run (setup_disk_cmd env d)))")
    case (Some y)
    have r: "diskSetup env d tr = (Some y, h2 @ [Run (setup_disk_cmd env d)])"
      unfolding unf by (rule disk_tail_fail[OF Some])
    have "new_events tr (snd (diskSetup env d tr)) = new_events tr h2 @ [Run (setup_disk_cmd env d)]"
      unfolding r by (subst h2new(1)) simp
    then have "docker_and_disk_calls env d (new_events tr (snd (diskSetup env d tr))) =
        [DoService ''docker'' STOP, Run (setup_disk_cmd env d)]"
      using h2new(2) by simp
    moreover have "fst (diskSetup env d tr) = Some y" by (simp add: r)
    moreover have "\<not> (\<forall>h. err (respond env h (Run (setup_disk_cmd env d))) = None)"
      using Some by (metis option.distinct(1))
    moreover have "(\<forall>h. err (respond env h (Run (setup_disk_cmd env d))) = Some x) \<longrightarrow> y = x"
      using Some by (metis option.inject)
    ultimately show ?thesis by simp
  next
    case None
    from disk_tail_ok[OF None, of "docker_detected env ps"] obtain rest where
      r: "diskSetup env d tr = (None, h2 @ [Run (setup_disk_cmd env d)]
           @ [Log Info [] ''Starting Docker...'' [], DoService ''docker'' START]
           @ Output (Command ''cat'' [''/proc/swap'']) # rest)"
      "rest = [] \<or> rest = [Run (Command ''swapon'' [''-a''])]"
      unfolding unf using dp by auto
    have "new_events tr (snd (diskSetup env d tr)) =
        new_events tr h2 @ [Run (setup_disk_cmd env d)]
           @ [Log Info [] ''Starting Docker...'' [], DoService ''docker'' START]
           @ Output (Command ''cat'' [''/proc/swap'']) # rest"
      unfolding r by (subst h2new(1)) simp
    then have "docker_and_disk_calls env d (new_events tr (snd (diskSetup env d tr))) =
        [DoService ''docker'' STOP, Run (setup_disk_cmd env d), DoService ''docker'' START]"
      using h2new(2) r(2) by auto
    moreover have "fst (diskSetup env d tr) = None" by (simp add: r)
    moreover have "\<not> (\<forall>h. err (respond env h (Run (setup_disk_cmd env d))) = Some x)"
      using None by (metis option.distinct(1))
    ultimately show ?thesis by simp
  qed
qed

theorem diskSetup_restart_only_after_success_witness:
  "docker_and_disk_calls (host [''dockerd''] []) doc_disk
      (new_events [] (snd (diskSetup (host [''dockerd''] []) doc_disk []))) =
     [DoService ''docker'' STOP, Run (setup_disk_cmd (host [''dockerd''] []) doc_disk), DoService ''docker'' START]
  \<and> docker_and_disk_calls (host [''dockerd''] [''run setup-disk'']) doc_disk
      (new_events [] (snd (diskSetup (host [''dockerd''] [''run setup-disk'']) doc_disk []))) =
     [DoService ''docker'' STOP, Run (setup_disk_cmd (host [''dockerd''] [''run setup-disk'']) doc_disk)]"
proof -
  have g: "ScratchDisk doc_disk \<noteq> []" by (simp add: doc_disk_def doc0_def)
  have ok1: "err (respond (host [''dockerd''] []) ([] @ [Log Debug [] ''Check if Docker is running'' [], Sleep 3]) Processes) = None"
    by (simp add: host_def)
  have ok2: "err (respond (host [''dockerd''] [''run setup-disk'']) ([] @ [Log Debug [] ''Check if Docker is running'' [], Sleep 3]) Processes) = None"
    by (simp add: host_def)
  have det: "docker_detected (host [''dockerd''] bad) (names (respond (host [''dockerd''] bad) ([] @ [Log Debug [] ''Check if Docker is running'' [], Sleep 3]) Processes))" for bad
    by (simp add: host_def docker_detected_def ascii_ToLower_def lower_byte_def)
  have s1: "\<forall>h. err (respond (host [''dockerd''] []) h (Run (setup_disk_cmd (host [''dockerd''] []) doc_disk))) = None"
    by (simp add: host_def)
  have s2: "\<forall>h. err (respond (host [''dockerd''] [''run setup-disk'']) h (Run (setup_disk_cmd (host [''dockerd''] [''run setup-disk'']) doc_disk))) = Some (ExtError ''run setup-disk'')"
    by (simp add: host_def setup_disk_cmd_def Command_def)
  show ?thesis
    using diskSetup_restart_only_after_success [OF g ok1 det, of "ExtError ''run setup-disk''"] diskSetup_restart_only_after_success [OF g ok2 det, of "ExtError ''run setup-disk''"] s1 s2
    by simp
qed

text \<open>
  The claim as worded, with a restart after a failed disk setup too, fails: on a host
  running \<^verbatim>\<open>dockerd\<close> where \<^verbatim>\<open>setup-disk\<close> fails, the step stops docker, returns
  the error of the invocation, and never asks for a start.
\<close>

theorem diskSetup_no_restart_after_failure_counterexample:
  "fst (diskSetup (host [''dockerd''] [''run setup-disk'']) doc_disk []) = Some (ExtError ''run setup-disk'')
 \<and> external_calls (snd (diskSetup (host [''dockerd''] [''run setup-disk'']) doc_disk [])) =
     [Sleep 3, Processes, DoService ''docker'' STOP, Sleep 2, GetMounts,
      Run (setup_disk_cmd (host [''dockerd''] [''run setup-disk'']) doc_disk)]"
  by (simp add: diskSetup_def steps host_def doc_disk_def doc0_def stop_docker_def
      ascii_ToLower_def lower_byte_def setup_disk_cmd_def Command_def external_calls_def)

subsection \<open>File materialization\<close>

lemma written_append [simp]: "written (a @ b) = written a @ written b"
  by (simp add: written_def)

lemma written_Cons [simp]: "written (e # b) = write_path e @ written b"
  by (simp add: written_def)

lemma written_Nil [simp]: "written [] = []"
  by (simp add: written_def)

lemma chown_ok:
  assumes "\<forall>h e. \<not> is_write e \<longrightarrow> err (respond env h e) = None"
  shows "chown env fd h = (None, h @ (if Owner fd \<noteq> [] then [Run (Command ''chown'' [Owner fd, Path fd])] else []))"
  using assms by (simp add: chown_def try_call_eq ret_def)

lemma write_and_chown_ok:
  assumes "\<forall>h e. \<not> is_write e \<longrightarrow> err (respond env h e) = None"
  shows "\<exists>evs. write_and_chown env fd perm data h = (None, h @ evs) \<and> written evs = [Path fd]"
proof (cases "err (respond env h (WriteFile (Path fd) data perm))")
  case None
  then show ?thesis
    by (simp add: write_and_chown_def call_def chown_ok[OF assms])
next
  case (Some e)
  then show ?thesis
    by (simp add: write_and_chown_def call_def emit_def chown_ok[OF assms])
qed

lemma createFile_ok:
  assumes hyp: "\<forall>h e. \<not> is_write e \<longrightarrow> err (respond env h e) = None" and p: "perms_ok fd"
  shows "\<exists>evs. createFile env fd tr = (None, tr @ evs) \<and> written evs = [Path fd]"
proof -
  from p obtain perm where perm: "strconv_ParseUint_8_32 (Permissions fd) = Inr perm"
    by (auto simp: perms_ok_def split: sum.splits)
  let ?h1 = "tr @ [Log Info [] ''Creating %s'' [FStr (Path fd)], MkdirAll (filepath_Dir env (Path fd)) 457]"
  have mk: "err (respond env (tr @ [Log Info [] ''Creating %s'' [FStr (Path fd)]]) (MkdirAll (filepath_Dir env (Path fd)) 457)) = None"
    using hyp by simp
  consider (inline) "Content fd \<noteq> []" | (url) "Content fd = []" "ContentURL fd \<noteq> []"
    | (none) "Content fd = []" "ContentURL fd = []" by blast
  then show ?thesis
  proof cases
    case inline
    from write_and_chown_ok[OF hyp, of fd perm "Content fd" ?h1] obtain evs where
      "write_and_chown env fd perm (Content fd) ?h1 = (None, ?h1 @ evs)" "written evs = [Path fd]" by blast
    then show ?thesis using inline mk
      by (simp add: createFile_def perm emit_def call_def)
  next
    case url
    let ?h2 = "?h1 @ [DownloadFile (ContentURL fd)]"
    have dl: "err (respond env ?h1 (DownloadFile (ContentURL fd))) = None" using hyp by simp
    from write_and_chown_ok[OF hyp, of fd perm "out (respond env ?h1 (DownloadFile (ContentURL fd)))" ?h2] obtain evs where
      "write_and_chown env fd perm (out (respond env ?h1 (DownloadFile (ContentURL fd)))) ?h2 = (None, ?h2 @ evs)" "written evs = [Path fd]" by blast
    then show ?thesis using url mk dl
      by (simp add: createFile_def perm emit_def call_def try_call_eq)
  next
    case none
    from write_and_chown_ok[OF hyp, of fd perm "[]" ?h1] obtain evs where
      "write_and_chown env fd perm [] ?h1 = (None, ?h1 @ evs)" "written evs = [Path fd]" by blast
    then show ?thesis using none mk
      by (simp add: createFile_def perm emit_def call_def)
  qed
qed

lemma createFiles_loop_ok:
  assumes hyp: "\<forall>h e. \<not> is_write e \<longrightarrow> err (respond env h e) = None"
  shows "list_all perms_ok fds \<Longrightarrow>
    \<exists>evs. createFiles_loop env fds tr = (None, tr @ evs) \<and> written evs = map Path fds"
proof (induction fds arbitrary: tr)
  case Nil
  then show ?case by simp
next
  case (Cons fd fds)
  from createFile_ok[OF hyp, of fd tr] Cons.prems obtain e1 where
    1: "createFile env fd tr = (None, tr @ e1)" "written e1 = [Path fd]" by auto
  from Cons.IH[of "tr @ e1"] Cons.prems obtain e2 where
    2: "createFiles_loop env fds (tr @ e1) = (None, (tr @ e1) @ e2)" "written e2 = map Path fds" by auto
  have "createFiles_loop env (fd # fds) tr = (None, tr @ (e1 @ e2))"
    using 1 2 by (simp add: try_step_def)
  moreover have "written (e1 @ e2) = map Path (fd # fds)" using 1 2 by simp
  ultimately show ?case by blast
qed

lemma write_failure_logged:
  "err (respond env h (WriteFile (Path fd) data perm)) = Some e \<Longrightarrow>
   write_and_chown env fd perm data h =
     chown env fd (h @ [WriteFile (Path fd) data perm, Log Debug [] ''error writing file: %s'' [FErr e]])"
  by (simp add: write_and_chown_def call_def emit_def)

lemma write_and_chown_fatal:
  assumes own: "Owner fd \<noteq> []"
    and ch: "\<forall>h. err (respond env h (Run (Command ''chown'' [Owner fd, Path fd]))) = Some x"
  shows "\<exists>evs. write_and_chown env fd perm data h =
           (Some x, h @ evs @ [Run (Command ''chown'' [Owner fd, Path fd])]) \<and> written evs = [Path fd]"
proof (cases "err (respond env h (WriteFile (Path fd) data perm))")
  case None
  then have "write_and_chown env fd perm data h =
      (Some x, h @ [WriteFile (Path fd) data perm] @ [Run (Command ''chown'' [Owner fd, Path fd])])"
    using own ch by (simp add: write_and_chown_def call_def chown_def try_call_eq)
  moreover have "written [WriteFile (Path fd) data perm] = [Path fd]" by simp
  ultimately show ?thesis by blast
next
  case (Some e)
  then have "write_and_chown env fd perm data h =
      (Some x, h @ [WriteFile (Path fd) data perm, Log Debug [] ''error writing file: %s'' [FErr e]]
                 @ [Run (Command ''chown'' [Owner fd, Path fd])])"
    using own ch by (simp add: write_and_chown_def call_def emit_def chown_def try_call_eq)
  moreover have "written [WriteFile (Path fd) data perm, Log Debug [] ''error writing file: %s'' [FErr e]] = [Path fd]"
    by simp
  ultimately show ?thesis by blast
qed

lemma createFile_chown_fatal:
  assumes hyp: "\<forall>h e. \<not> is_write e \<and> \<not> runs ''chown'' e \<longrightarrow> err (respond env h e) = None"
    and p: "perms_ok fd" and own: "Owner fd \<noteq> []"
    and ch: "\<forall>h. err (respond env h (Run (Command ''chown'' [Owner fd, Path fd]))) = Some x"
  shows "\<exists>evs. createFile env fd tr =
           (Some x, tr @ evs @ [Run (Command ''chown'' [Owner fd, Path fd])]) \<and> written evs = [Path fd]"
proof -
  from p obtain perm where perm: "strconv_ParseUint_8_32 (Permissions fd) = Inr perm"
    by (auto simp: perms_ok_def split: sum.splits)
  let ?pre = "[Log Info [] ''Creating %s'' [FStr (Path fd)], MkdirAll (filepath_Dir env (Path fd)) 457]"
  let ?h1 = "tr @ ?pre"
  have mk: "err (respond env (tr @ [Log Info [] ''Creating %s'' [FStr (Path fd)]]) (MkdirAll (filepath_Dir env (Path fd)) 457)) = None"
    using hyp by simp
  consider (inline) "Content fd \<noteq> []" | (url) "Content fd = []" "ContentURL fd \<noteq> []"
    | (none) "Content fd = []" "ContentURL fd = []" by blast
  then show ?thesis
  proof cases
    case inline
    from write_and_chown_fatal[OF own ch, of perm "Content fd" ?h1] obtain evs where
      e: "write_and_chown env fd perm (Content fd) ?h1 = (Some x, ?h1 @ evs @ [Run (Command ''chown'' [Owner fd, Path fd])])"
      "written evs = [Path fd]" by blast
    have "createFile env fd tr = (Some x, tr @ (?pre @ evs) @ [Run (Command ''chown'' [Owner fd, Path fd])])"
      using inline mk e(1) by (simp add: createFile_def perm emit_def call_def)
    moreover have "written (?pre @ evs) = [Path fd]" using e(2) by simp
    ultimately show ?thesis by blast
  next
    case url
    let ?h2 = "?h1 @ [DownloadFile (ContentURL fd)]"
    have dl: "err (respond env ?h1 (DownloadFile (ContentURL fd))) = None" using hyp by simp
    from write_and_chown_fatal[OF own ch, of perm "out (respond env ?h1 (DownloadFile (ContentURL fd)))" ?h2] obtain evs where
      e: "write_and_chown env fd perm (out (respond env ?h1 (DownloadFile (ContentURL fd)))) ?h2 =
         (Some x, ?h2 @ evs @ [Run (Command ''chown'' [Owner fd, Path fd])])" "written evs = [Path fd]" by blast
    have "createFile env fd tr =
        (Some x, tr @ (?pre @ [DownloadFile (ContentURL fd)] @ evs) @ [Run (Command ''chown'' [Owner fd, Path fd])])"
      using url mk dl e(1) by (simp add: createFile_def perm emit_def call_def try_call_eq)
    moreover have "written (?pre @ [DownloadFile (ContentURL fd)] @ evs) = [Path fd]" using e(2) by simp
    ultimately show ?thesis by blast
  next
    case none
    from write_and_chown_fatal[OF own ch, of perm "[]" ?h1] obtain evs where
      e: "write_and_chown env fd perm [] ?h1 = (Some x, ?h1 @ evs @ [Run (Command ''chown'' [Owner fd, Path fd])])"
      "written evs = [Path fd]" by blast
    have "createFile env fd tr = (Some x, tr @ (?pre @ evs) @ [Run (Command ''chown'' [Owner fd, Path fd])])"
      using none mk e(1) by (simp add: createFile_def perm emit_def call_def)
    moreover have "written (?pre @ evs) = [Path fd]" using e(2) by simp
    ultimately show ?thesis by blast
  qed
qed

lemma createFiles_loop_append:
  "createFiles_loop env (pre @ fds) tr = try_step (createFiles_loop env pre) (createFiles_loop env fds) tr"
proof (induction pre arbitrary: tr)
  case Nil
  show ?case by (simp add: try_step_def)
next
  case (Cons fd pre)
  show ?case
  proof (cases "createFile env fd tr")
    case (Pair r tr1)
    then show ?thesis
      using Cons.IH[of tr1] by (cases r) (simp_all add: try_step_def)
  qed
qed

lemma createFiles_after:
  assumes "WriteFiles d = pre @ fd # rest" and "createFiles_loop env pre tr0 = (None, tr)"
  shows "createFiles env d tr0 = try_step (createFile env fd) (createFiles_loop env rest) tr"
  using assms by (simp add: createFiles_def createFiles_loop_append try_step_def)

text \<open>
  C5. (1) When every permission string parses and no call other than a content write
  fails, the step returns no error whichever content writes fail, and it attempts the
  content write of every descriptor, in order. (2) A failed content write is logged
  and the loop body goes on to the ownership change as after a successful write.
  (3) When the descriptors before \<open>fd\<close> were processed without a fatal error and
  the ownership change of \<open>fd\<close> fails (its owner is set, its permissions parse,
  nothing else but content writes fails), the step returns that error, the ownership
  change is the last thing it does, and the only content write attempted from \<open>fd\<close>
  on is that of \<open>fd\<close>: the remaining descriptors are not processed.
\<close>

theorem createFiles_write_lenient_chown_fatal:
  "(list_all perms_ok (WriteFiles d) \<and> (\<forall>h e. \<not> is_write e \<longrightarrow> err (respond env h e) = None) \<longrightarrow>
      fst (createFiles env d tr0) = None \<and>
      written (new_events tr0 (snd (createFiles env d tr0))) = map Path (WriteFiles d))
 \<and> (err (respond env h (WriteFile (Path fd) data perm)) = Some e \<longrightarrow>
      write_and_chown env fd perm data h =
        chown env fd (h @ [WriteFile (Path fd) data perm,
                           Log Debug [] ''error writing file: %s'' [FErr e]]))
 \<and> (WriteFiles d = pre @ fd # rest \<and> createFiles_loop env pre tr0 = (None, tr) \<and>
     perms_ok fd \<and> Owner fd \<noteq> [] \<and>
     (\<forall>h e. \<not> is_write e \<and> \<not> runs ''chown'' e \<longrightarrow> err (respond env h e) = None) \<and>
     (\<forall>h. err (respond env h (Run (Command ''chown'' [Owner fd, Path fd]))) = Some x) \<longrightarrow>
      fst (createFiles env d tr0) = Some x \<and>
      written (new_events tr (snd (createFiles env d tr0))) = [Path fd] \<and>
      last (snd (createFiles env d tr0)) = Run (Command ''chown'' [Owner fd, Path fd]))"
proof (intro conjI impI)
  assume a: "list_all perms_ok (WriteFiles d) \<and> (\<forall>h e. \<not> is_write e \<longrightarrow> err (respond env h e) = None)"
  then obtain evs where "createFiles_loop env (WriteFiles d) tr0 = (None, tr0 @ evs)"
      "written evs = map Path (WriteFiles d)"
    using createFiles_loop_ok[of env "WriteFiles d" tr0] by blast
  then show "fst (createFiles env d tr0) = None"
    and "written (new_events tr0 (snd (createFiles env d tr0))) = map Path (WriteFiles d)"
    by (simp_all add: createFiles_def)
next
  assume "err (respond env h (WriteFile (Path fd) data perm)) = Some e"
  then show "write_and_chown env fd perm data h =
        chown env fd (h @ [WriteFile (Path fd) data perm,
                           Log Debug [] ''error writing file: %s'' [FErr e]])"
    by (rule write_failure_logged)
next
  assume a: "WriteFiles d = pre @ fd # rest \<and> createFiles_loop env pre tr0 = (None, tr) \<and>
     perms_ok fd \<and> Owner fd \<noteq> [] \<and>
     (\<forall>h e. \<not> is_write e \<and> \<not> runs ''chown'' e \<longrightarrow> err (respond env h e) = None) \<and>
     (\<forall>h. err (respond env h (Run (Command ''chown'' [Owner fd, Path fd]))) = Some x)"
  then obtain evs where e: "createFile env fd tr =
           (Some x, tr @ evs @ [Run (Command ''chown'' [Owner fd, Path fd])])" "written evs = [Path fd]"
    using createFile_chown_fatal[of env fd x tr] by blast
  have r: "createFiles env d tr0 = (Some x, tr @ evs @ [Run (Command ''chown'' [Owner fd, Path fd])])"
    using a e(1) createFiles_after[of d pre fd rest env tr0 tr] by (simp add: try_step_def)
  show "fst (createFiles env d tr0) = Some x" by (simp add: r)
  show "written (new_events tr (snd (createFiles env d tr0))) = [Path fd]"
    using e(2) by (simp add: r)
  show "last (snd (createFiles env d tr0)) = Run (Command ''chown'' [Owner fd, Path fd])"
    by (simp add: r)
qed

theorem createFiles_write_lenient_chown_fatal_witness:
  "fst (createFiles (host [] [''WriteFile'']) (doc0\<lparr>WriteFiles := [fd_hello, fd_remote]\<rparr>) []) = None
 \<and> written (new_events []
       (snd (createFiles (host [] [''WriteFile'']) (doc0\<lparr>WriteFiles := [fd_hello, fd_remote]\<rparr>) []))) =
     [''/etc/hello'', ''/opt/tool'']
 \<and> write_and_chown (host [] [''WriteFile'']) fd_hello 420 ''hello'' [] =
     (None, [WriteFile ''/etc/hello'' ''hello'' 420,
             Log Debug [] ''error writing file: %s'' [FErr (ExtError ''WriteFile'')]])
 \<and> fst (createFiles (host [] [''run chown'']) (doc0\<lparr>WriteFiles := [fd_hello, fd_owned, fd_remote]\<rparr>) []) =
     Some (ExtError ''run chown'')
 \<and> written (snd (createFiles (host [] [''run chown'']) (doc0\<lparr>WriteFiles := [fd_hello, fd_owned, fd_remote]\<rparr>) [])) =
     [''/etc/hello'', ''/srv/app.conf'']
 \<and> last (snd (createFiles (host [] [''run chown'']) (doc0\<lparr>WriteFiles := [fd_hello, fd_owned, fd_remote]\<rparr>) [])) =
     Run (Command ''chown'' [''app'', ''/srv/app.conf''])"
proof -
  let ?H = "host [] [''WriteFile'']"
  let ?d = "doc0\<lparr>WriteFiles := [fd_hello, fd_remote]\<rparr>"
  let ?K = "host [] [''run chown'']"
  let ?c = "doc0\<lparr>WriteFiles := [fd_hello, fd_owned, fd_remote]\<rparr>"
  let ?t = "[Log Info [] ''Creating %s'' [FStr ''/etc/hello''], MkdirAll ''/etc/hello'' 457,
             WriteFile ''/etc/hello'' ''hello'' 420]"
  have wf1: "WriteFiles ?d = [fd_hello, fd_remote]" by (simp add: doc0_def)
  have wf2: "WriteFiles ?c = [fd_hello] @ fd_owned # [fd_remote]" by (simp add: doc0_def)
  have p0: "strconv_ParseUint_8_32 ''644'' = Inr 420"
    by (simp add: strconv_ParseUint_8_32_def octal_value_def)
  have pre: "createFiles_loop ?K [fd_hello] [] = (None, ?t)"
    by (simp add: createFile_def fd_hello_def p0 host_def try_step_def emit_def call_def
        write_and_chown_def chown_def ret_def)
  have p1: "list_all perms_ok (WriteFiles ?d)"
    by (simp add: wf1 perms_ok_def fd_hello_def fd_remote_def strconv_ParseUint_8_32_def octal_value_def)
  have p2: "perms_ok fd_owned"
    by (simp add: perms_ok_def fd_owned_def strconv_ParseUint_8_32_def octal_value_def)
  have h1: "\<forall>h e. \<not> is_write e \<longrightarrow> err (respond ?H h e) = None"
  proof (intro allI impI)
    fix h e assume "\<not> is_write e" then show "err (respond ?H h e) = None"
      by (cases e) (simp_all add: host_def)
  qed
  have h2: "\<forall>h e. \<not> is_write e \<and> \<not> runs ''chown'' e \<longrightarrow> err (respond ?K h e) = None"
  proof (intro allI impI)
    fix h e assume "\<not> is_write e \<and> \<not> runs ''chown'' e" then show "err (respond ?K h e) = None"
      by (cases e) (simp_all add: host_def)
  qed
  have h3: "err (respond ?H [] (WriteFile (Path fd_hello) ''hello'' 420)) = Some (ExtError ''WriteFile'')"
    by (simp add: host_def)
  have h4: "\<forall>h. err (respond ?K h (Run (Command ''chown'' [Owner fd_owned, Path fd_owned]))) = Some (ExtError ''run chown'')"
    by (simp add: host_def Command_def)
  have o: "Owner fd_owned \<noteq> []" by (simp add: fd_owned_def)
  note A = createFiles_write_lenient_chown_fatal [of ?d ?H "[]" "[]" fd_hello "''hello''" 420 "ExtError ''WriteFile''" "[]" "[]" "[]" "ExtError ''WriteFile''"]
  note B = createFiles_write_lenient_chown_fatal [of ?c ?K "[]" "[]" fd_owned "[]" 0 "ExtError ''WriteFile''" "[fd_hello]" "[fd_remote]" ?t "ExtError ''run chown''"]
  have a: "fst (createFiles ?H ?d []) = None"
     "written (new_events [] (snd (createFiles ?H ?d []))) = map Path (WriteFiles ?d)"
    using A p1 h1 by blast+
  have b: "write_and_chown ?H fd_hello 420 ''hello'' [] =
      chown ?H fd_hello ([] @ [WriteFile (Path fd_hello) ''hello'' 420,
                           Log Debug [] ''error writing file: %s'' [FErr (ExtError ''WriteFile'')]])"
    using A h3 by blast
  have c: "fst (createFiles ?K ?c []) = Some (ExtError ''run chown'')"
     "written (new_events ?t (snd (createFiles ?K ?c []))) = [Path fd_owned]"
     "last (snd (createFiles ?K ?c [])) = Run (Command ''chown'' [Owner fd_owned, Path fd_owned])"
    using B wf2 pre p2 o h2 h4 by blast+
  have w: "written (snd (createFiles ?K ?c [])) = [''/etc/hello'', ''/srv/app.conf'']"
    by (simp add: createFiles_def doc0_def createFile_def fd_hello_def fd_owned_def p0 host_def
        try_step_def emit_def call_def try_call_eq write_and_chown_def chown_def ret_def
        strconv_ParseUint_8_32_def octal_value_def Command_def)
  show ?thesis
    using a b c w by (simp add: wf1 fd_hello_def fd_remote_def fd_owned_def chown_def ret_def)
qed

lemma parse_octal_bad:
  "\<exists>c\<in>set cs. octal_value c = None \<Longrightarrow> \<exists>e. parse_octal s0 cs n = Inl e"
  by (induction cs arbitrary: n) (auto simp: Let_def split: option.splits)

text \<open>
  C10. For a descriptor \<open>fd\<close> of the list, the descriptors before it processed
  without a fatal error: (1) when its permission string does not parse, the step
  returns at once, with the parse error wrapped by \<^verbatim>\<open>Error reading permissions: %s\<close>,
  and adds nothing to the trace; (2) the empty string and a string with a byte that
  is not a digit from 0 to 7 do not parse; (3) when the creation of the parent
  directory fails, the step returns at once with that error wrapped by
  \<^verbatim>\<open>Error creating %s: %s\<close>; (4) when the content is to be downloaded and the
  download fails, the step returns the download's error at once. In each case the
  trace ends there: nothing is done for the remaining descriptors.
\<close>

theorem createFiles_parse_mkdir_download_fatal:
  assumes w: "WriteFiles d = pre @ fd # rest"
    and pre: "createFiles_loop env pre tr0 = (None, tr)"
  shows
  "(strconv_ParseUint_8_32 (Permissions fd) = Inl e \<longrightarrow>
      createFiles env d tr0 = (Some (Errorf ''Error reading permissions: %s'' [FErr e]), tr))
 \<and> (Permissions fd = [] \<or> (\<exists>c\<in>set (Permissions fd). octal_value c = None) \<longrightarrow>
      (\<exists>e'. strconv_ParseUint_8_32 (Permissions fd) = Inl e'))
 \<and> (strconv_ParseUint_8_32 (Permissions fd) = Inr perm \<and>
     err (respond env (tr @ [Log Info [] ''Creating %s'' [FStr (Path fd)]])
            (MkdirAll (filepath_Dir env (Path fd)) 457)) = Some e \<longrightarrow>
      createFiles env d tr0 =
        (Some (Errorf ''Error creating %s: %s'' [FStr (filepath_Dir env (Path fd)), FErr e]),
         tr @ [Log Info [] ''Creating %s'' [FStr (Path fd)],
               MkdirAll (filepath_Dir env (Path fd)) 457]))
 \<and> (strconv_ParseUint_8_32 (Permissions fd) = Inr perm \<and>
     err (respond env (tr @ [Log Info [] ''Creating %s'' [FStr (Path fd)]])
            (MkdirAll (filepath_Dir env (Path fd)) 457)) = None \<and>
     Content fd = [] \<and> ContentURL fd \<noteq> [] \<and>
     err (respond env (tr @ [Log Info [] ''Creating %s'' [FStr (Path fd)],
                             MkdirAll (filepath_Dir env (Path fd)) 457])
            (DownloadFile (ContentURL fd))) = Some e \<longrightarrow>
      createFiles env d tr0 =
        (Some e,
         tr @ [Log Info [] ''Creating %s'' [FStr (Path fd)],
               MkdirAll (filepath_Dir env (Path fd)) 457,
               DownloadFile (ContentURL fd)]))"
proof (intro conjI impI)
  note unf = createFiles_after[OF w pre]
  {
    assume "strconv_ParseUint_8_32 (Permissions fd) = Inl e"
    then show "createFiles env d tr0 = (Some (Errorf ''Error reading permissions: %s'' [FErr e]), tr)"
      by (simp add: unf createFile_def try_step_def ret_def)
  next
    assume "Permissions fd = [] \<or> (\<exists>c\<in>set (Permissions fd). octal_value c = None)"
    then show "\<exists>e'. strconv_ParseUint_8_32 (Permissions fd) = Inl e'"
      using parse_octal_bad[of "Permissions fd" "Permissions fd" 0]
      by (auto simp: strconv_ParseUint_8_32_def)
  next
    assume "strconv_ParseUint_8_32 (Permissions fd) = Inr perm \<and>
       err (respond env (tr @ [Log Info [] ''Creating %s'' [FStr (Path fd)]])
              (MkdirAll (filepath_Dir env (Path fd)) 457)) = Some e"
    then show "createFiles env d tr0 =
          (Some (Errorf ''Error creating %s: %s'' [FStr (filepath_Dir env (Path fd)), FErr e]),
           tr @ [Log Info [] ''Creating %s'' [FStr (Path fd)],
                 MkdirAll (filepath_Dir env (Path fd)) 457])"
      by (simp add: unf createFile_def try_step_def ret_def emit_def call_def)
  next
    assume "strconv_ParseUint_8_32 (Permissions fd) = Inr perm \<and>
       err (respond env (tr @ [Log Info [] ''Creating %s'' [FStr (Path fd)]])
              (MkdirAll (filepath_Dir env (Path fd)) 457)) = None \<and>
       Content fd = [] \<and> ContentURL fd \<noteq> [] \<and>
       err (respond env (tr @ [Log Info [] ''Creating %s'' [FStr (Path fd)],
                               MkdirAll (filepath_Dir env (Path fd)) 457])
              (DownloadFile (ContentURL fd))) = Some e"
    then show "createFiles env d tr0 =
          (Some e,
           tr @ [Log Info [] ''Creating %s'' [FStr (Path fd)],
                 MkdirAll (filepath_Dir env (Path fd)) 457,
                 DownloadFile (ContentURL fd)])"
      by (simp add: unf createFile_def try_step_def ret_def emit_def call_def try_call_eq)
  }
qed

theorem createFiles_parse_mkdir_download_fatal_witness:
  "createFiles (host [] []) (doc0\<lparr>WriteFiles := [fd_hello, fd_badperm, fd_owned]\<rparr>) [] =
     (Some (Errorf ''Error reading permissions: %s'' [FErr (ErrSyntax ''rw-r--r--'')]),
      [Log Info [] ''Creating %s'' [FStr ''/etc/hello''], MkdirAll ''/etc/hello'' 457,
       WriteFile ''/etc/hello'' ''hello'' 420])
 \<and> createFiles (host [] [''MkdirAll'']) (doc0\<lparr>WriteFiles := [fd_remote, fd_hello]\<rparr>) [] =
     (Some (Errorf ''Error creating %s: %s'' [FStr ''/opt/tool'', FErr (ExtError ''MkdirAll'')]),
      [Log Info [] ''Creating %s'' [FStr ''/opt/tool''], MkdirAll ''/opt/tool'' 457])
 \<and> createFiles (host [] [''downloadFile'']) (doc0\<lparr>WriteFiles := [fd_hello, fd_remote, fd_owned]\<rparr>) [] =
     (Some (ExtError ''downloadFile''),
      [Log Info [] ''Creating %s'' [FStr ''/etc/hello''], MkdirAll ''/etc/hello'' 457,
       WriteFile ''/etc/hello'' ''hello'' 420,
       Log Info [] ''Creating %s'' [FStr ''/opt/tool''], MkdirAll ''/opt/tool'' 457,
       DownloadFile ''http://example.com/tool''])"
proof -
  let ?t = "[Log Info [] ''Creating %s'' [FStr ''/etc/hello''], MkdirAll ''/etc/hello'' 457,
             WriteFile ''/etc/hello'' ''hello'' 420]"
  have w1: "WriteFiles (doc0\<lparr>WriteFiles := [fd_hello, fd_badperm, fd_owned]\<rparr>) = [fd_hello] @ fd_badperm # [fd_owned]"
    by (simp add: doc0_def)
  have w2: "WriteFiles (doc0\<lparr>WriteFiles := [fd_remote, fd_hello]\<rparr>) = [] @ fd_remote # [fd_hello]"
    by (simp add: doc0_def)
  have w3: "WriteFiles (doc0\<lparr>WriteFiles := [fd_hello, fd_remote, fd_owned]\<rparr>) = [fd_hello] @ fd_remote # [fd_owned]"
    by (simp add: doc0_def)
  have p0: "strconv_ParseUint_8_32 ''644'' = Inr 420"
    by (simp add: strconv_ParseUint_8_32_def octal_value_def)
  have pre1: "createFiles_loop (host [] []) [fd_hello] [] = (None, ?t)"
    by (simp add: createFile_def fd_hello_def p0 host_def try_step_def emit_def call_def
        write_and_chown_def chown_def ret_def)
  have pre2: "createFiles_loop (host [] [''MkdirAll'']) [] [] = (None, [])"
    by simp
  have pre3: "createFiles_loop (host [] [''downloadFile'']) [fd_hello] [] = (None, ?t)"
    by (simp add: createFile_def fd_hello_def p0 host_def try_step_def emit_def call_def
        write_and_chown_def chown_def ret_def)
  have p1: "strconv_ParseUint_8_32 (Permissions fd_badperm) = Inl (ErrSyntax ''rw-r--r--'')"
    by (simp add: fd_badperm_def strconv_ParseUint_8_32_def octal_value_def)
  have p2: "strconv_ParseUint_8_32 (Permissions fd_remote) = Inr 493"
    by (simp add: fd_remote_def strconv_ParseUint_8_32_def octal_value_def)
  have f: "filepath_Dir (host [] bad) p = p" for bad p by (simp add: host_def)
  have a: "createFiles (host [] []) (doc0\<lparr>WriteFiles := [fd_hello, fd_badperm, fd_owned]\<rparr>) [] =
     (Some (Errorf ''Error reading permissions: %s'' [FErr (ErrSyntax ''rw-r--r--'')]), ?t)"
    using createFiles_parse_mkdir_download_fatal [OF w1 pre1, of "ErrSyntax ''rw-r--r--''" 0] p1 by blast
  have m: "err (respond (host [] [''MkdirAll'']) ([] @ [Log Info [] ''Creating %s'' [FStr (Path fd_remote)]])
            (MkdirAll (filepath_Dir (host [] [''MkdirAll'']) (Path fd_remote)) 457)) = Some (ExtError ''MkdirAll'')"
    by (simp add: host_def)
  have b: "createFiles (host [] [''MkdirAll'']) (doc0\<lparr>WriteFiles := [fd_remote, fd_hello]\<rparr>) [] =
        (Some (Errorf ''Error creating %s: %s'' [FStr (filepath_Dir (host [] [''MkdirAll'']) (Path fd_remote)), FErr (ExtError ''MkdirAll'')]),
         [] @ [Log Info [] ''Creating %s'' [FStr (Path fd_remote)],
               MkdirAll (filepath_Dir (host [] [''MkdirAll'']) (Path fd_remote)) 457])"
    using createFiles_parse_mkdir_download_fatal [OF w2 pre2, of "ExtError ''MkdirAll''" 493] p2 m by blast
  have n: "err (respond (host [] [''downloadFile'']) (?t @ [Log Info [] ''Creating %s'' [FStr (Path fd_remote)]])
            (MkdirAll (filepath_Dir (host [] [''downloadFile'']) (Path fd_remote)) 457)) = None"
     "Content fd_remote = []" "ContentURL fd_remote \<noteq> []"
     "err (respond (host [] [''downloadFile'']) (?t @ [Log Info [] ''Creating %s'' [FStr (Path fd_remote)],
                             MkdirAll (filepath_Dir (host [] [''downloadFile'']) (Path fd_remote)) 457])
            (DownloadFile (ContentURL fd_remote))) = Some (ExtError ''downloadFile'')"
    by (simp_all add: host_def fd_remote_def)
  have c: "createFiles (host [] [''downloadFile'']) (doc0\<lparr>WriteFiles := [fd_hello, fd_remote, fd_owned]\<rparr>) [] =
        (Some (ExtError ''downloadFile''),
         ?t @ [Log Info [] ''Creating %s'' [FStr (Path fd_remote)],
               MkdirAll (filepath_Dir (host [] [''downloadFile'']) (Path fd_remote)) 457,
               DownloadFile (ContentURL fd_remote)])"
    using createFiles_parse_mkdir_download_fatal [OF w3 pre3, of "ExtError ''downloadFile''" 493] p2 n by blast
  show ?thesis using a b c by (simp add: f fd_remote_def)
qed

subsection \<open>The directive patcher\<close>

lemma lines_acc_line:
  "newline \<notin> set l \<Longrightarrow> lines_acc cur (l @ newline # rest) = (rev cur @ l) # lines_acc [] rest"
  by (induction l arbitrary: cur) auto

lemma lines_of_unlines:
  "\<forall>l\<in>set ls. newline \<notin> set l \<Longrightarrow> lines_of (unlines ls) = ls"
  unfolding lines_of_def unlines_def
  by (induction ls) (simp_all add: lines_acc_line)

lemma lines_acc_no_newline:
  "newline \<notin> set cur \<Longrightarrow> \<forall>l\<in>set (lines_acc cur s). newline \<notin> set l"
proof (induction s arbitrary: cur)
  case Nil
  then show ?case by simp
next
  case (Cons c cs)
  show ?case
  proof (cases "c = newline")
    case True
    then show ?thesis using Cons.IH[of "[]"] Cons.prems by simp
  next
    case False
    then show ?thesis using Cons.IH[of "c # cur"] Cons.prems by simp
  qed
qed

lemma lines_of_no_newline: "\<forall>l\<in>set (lines_of s). newline \<notin> set l"
  unfolding lines_of_def using lines_acc_no_newline[of "[]"] by simp

lemma patch_line_directive:
  assumes "list_all (entry_ok d) desired"
  shows "directive_of d (fst (patch_line d desired ap l)) = directive_of d l"
proof (cases "directive_of d l")
  case None
  then show ?thesis by (simp add: patch_line_def)
next
  case (Some k)
  show ?thesis
  proof (cases "map_of desired k")
    case None
    then show ?thesis using Some by (simp add: patch_line_def)
  next
    case (Some v)
    then have "(k, v) \<in> set desired" by (rule map_of_SomeD)
    then have "entry_ok d (k, v)" using assms by (simp add: list_all_iff)
    then have "directive_of d (k @ d @ v) = Some k" by (simp add: entry_ok_def)
    then show ?thesis using Some \<open>directive_of d l = Some k\<close> by (simp add: patch_line_def)
  qed
qed

lemma patch_line_idem:
  assumes "list_all (entry_ok d) desired"
  shows "patch_line d desired ap (fst (patch_line d desired ap l)) = patch_line d desired ap l"
proof (cases "directive_of d l")
  case None
  then show ?thesis by (simp add: patch_line_def)
next
  case (Some k)
  show ?thesis
  proof (cases "map_of desired k")
    case None
    then show ?thesis using Some by (simp add: patch_line_def)
  next
    case (Some v)
    then have "(k, v) \<in> set desired" by (rule map_of_SomeD)
    then have "entry_ok d (k, v)" using assms by (simp add: list_all_iff)
    then have "directive_of d (k @ d @ v) = Some k" by (simp add: entry_ok_def)
    then show ?thesis using Some \<open>directive_of d l = Some k\<close> by (simp add: patch_line_def)
  qed
qed

lemma scan_idem:
  assumes "list_all (entry_ok d) desired"
  shows "scan d desired ap (fst (scan d desired ap ls)) = scan d desired ap ls"
proof (induction ls arbitrary: ap)
  case Nil
  then show ?case by simp
next
  case (Cons l ls)
  obtain l' ap1 where p: "patch_line d desired ap l = (l', ap1)" by (cases "patch_line d desired ap l")
  obtain rest ap2 where r: "scan d desired ap1 ls = (rest, ap2)" by (cases "scan d desired ap1 ls")
  have p': "patch_line d desired ap l' = (l', ap1)"
    using patch_line_idem[OF assms, of ap l] p by simp
  have r': "scan d desired ap1 rest = (rest, ap2)"
    using Cons.IH[of ap1] r by simp
  show ?case by (simp add: p r p' r')
qed

lemma scan_append:
  "scan d desired ap (xs @ ys) =
     (case scan d desired ap xs of (o1, a1) \<Rightarrow>
        (case scan d desired a1 ys of (o2, a2) \<Rightarrow> (o1 @ o2, a2)))"
  by (induction xs arbitrary: ap) (auto split: prod.splits)

lemma scan_appended:
  assumes "\<forall>(k, v)\<in>set es. k \<notin> set ap \<and> map_of desired k = Some v \<and> entry_ok d (k, v)"
    and "distinct (map fst es)"
  shows "scan d desired ap (map (\<lambda>(k, v). k @ d @ v) es) =
           (map (\<lambda>(k, v). k @ d @ v) es, rev (map fst es) @ ap)"
  using assms
proof (induction es arbitrary: ap)
  case Nil
  then show ?case by simp
next
  case (Cons e es)
  obtain k v where e: "e = (k, v)" by (cases e)
  have 1: "k \<notin> set ap" "map_of desired k = Some v" "directive_of d (k @ d @ v) = Some k"
    using Cons.prems(1) by (simp_all add: e entry_ok_def)
  have pl: "patch_line d desired ap (k @ d @ v) = (k @ d @ v, k # ap)"
    using 1 by (simp add: patch_line_def)
  have "\<forall>(k', v')\<in>set es. k' \<notin> set (k # ap) \<and> map_of desired k' = Some v' \<and> entry_ok d (k', v')"
  proof (intro ballI, clarify)
    fix k' v' assume m: "(k', v') \<in> set es"
    then have "k' \<in> fst ` set es" by force
    then have "k' \<noteq> k" using Cons.prems(2) by (auto simp: e)
    then show "k' \<notin> set (k # ap) \<and> map_of desired k' = Some v' \<and> entry_ok d (k', v')"
      using Cons.prems(1) m by auto
  qed
  moreover have "distinct (map fst es)" using Cons.prems(2) by simp
  ultimately have "scan d desired (k # ap) (map (\<lambda>(k, v). k @ d @ v) es) =
           (map (\<lambda>(k, v). k @ d @ v) es, rev (map fst es) @ k # ap)"
    by (rule Cons.IH)
  then show ?case by (simp add: e pl)
qed

lemma scan_no_newline:
  assumes "list_all (entry_ok d) desired" and "\<forall>l\<in>set ls. newline \<notin> set l"
  shows "\<forall>l\<in>set (fst (scan d desired ap ls)). newline \<notin> set l"
  using assms(2)
proof (induction ls arbitrary: ap)
  case Nil
  then show ?case by simp
next
  case (Cons l ls)
  obtain l' ap1 where p: "patch_line d desired ap l = (l', ap1)" by (cases "patch_line d desired ap l")
  obtain rest ap2 where r: "scan d desired ap1 ls = (rest, ap2)" by (cases "scan d desired ap1 ls")
  have "newline \<notin> set l'"
  proof (cases "l' = l")
    case True
    then show ?thesis using Cons.prems by simp
  next
    case False
    then obtain k v where "map_of desired k = Some v" "l' = k @ d @ v"
      using p by (auto simp: patch_line_def split: option.splits if_splits)
    then have "entry_ok d (k, v)" using assms(1) map_of_SomeD[of desired k v] by (simp add: list_all_iff)
    then show ?thesis using \<open>l' = k @ d @ v\<close> by (simp add: entry_ok_def)
  qed
  moreover have "\<forall>l\<in>set rest. newline \<notin> set l"
    using Cons.IH[of ap1] Cons.prems r by simp
  ultimately show ?case by (simp add: p r)
qed

lemma patch_lines_idem:
  assumes ok: "list_all (entry_ok d) desired" and dist: "distinct (map fst desired)"
  shows "patch_lines d desired (patch_lines d desired ls) = patch_lines d desired ls"
proof -
  obtain rest ap where s1: "scan d desired [] ls = (rest, ap)" by (cases "scan d desired [] ls")
  let ?es = "filter (\<lambda>(k, v). k \<notin> set ap) desired"
  let ?app = "map (\<lambda>(k, v). k @ d @ v) ?es"
  have p1: "patch_lines d desired ls = rest @ ?app" by (simp add: patch_lines_def s1)
  have s2: "scan d desired [] rest = (rest, ap)"
    using scan_idem[OF ok, of "[]" ls] s1 by simp
  have es: "\<forall>(k, v)\<in>set ?es. k \<notin> set ap \<and> map_of desired k = Some v \<and> entry_ok d (k, v)"
    using ok dist by (auto simp: list_all_iff)
  have des: "distinct (map fst ?es)" using dist by (simp add: distinct_map_filter)
  have s3: "scan d desired ap ?app = (?app, rev (map fst ?es) @ ap)"
    using scan_appended[OF es des] .
  have s4: "scan d desired [] (rest @ ?app) = (rest @ ?app, rev (map fst ?es) @ ap)"
    by (simp add: scan_append s2 s3)
  have none: "filter (\<lambda>(k, v). k \<notin> set (rev (map fst ?es) @ ap)) desired = []"
    by (auto simp: filter_empty_conv image_iff)
  show ?thesis
    unfolding p1 by (simp add: patch_lines_def s4 none del: set_append set_rev set_map)
qed

lemma patch_lines_no_newline:
  assumes ok: "list_all (entry_ok d) desired" and ls: "\<forall>l\<in>set ls. newline \<notin> set l"
  shows "\<forall>l\<in>set (patch_lines d desired ls). newline \<notin> set l"
proof -
  obtain rest ap where s1: "scan d desired [] ls = (rest, ap)" by (cases "scan d desired [] ls")
  have "\<forall>l\<in>set rest. newline \<notin> set l"
    using scan_no_newline[OF ok ls, of "[]"] s1 by simp
  moreover have "\<forall>l\<in>set (map (\<lambda>(k, v). k @ d @ v) (filter (\<lambda>(k, v). k \<notin> set ap) desired)). newline \<notin> set l"
    using ok by (auto simp: list_all_iff entry_ok_def)
  ultimately show ?thesis by (auto simp: patch_lines_def s1)
qed

lemma split_first_single:
  "c \<notin> set k \<Longrightarrow> split_first [c] (k @ c # v) = Some (k, v)"
  by (induction k) auto

lemma entry_ok_single:
  "c \<noteq> newline \<Longrightarrow> c \<notin> set k \<Longrightarrow> newline \<notin> set k \<Longrightarrow> newline \<notin> set v \<Longrightarrow> entry_ok [c] (k, v)"
  by (simp add: entry_ok_def directive_of_def split_first_single)

text \<open>
  C7, as the specified algorithm has it. When the keys of the desired mapping are
  unique and every entry is found again by the patcher (its line
  \<^verbatim>\<open>key<delimiter>value\<close> has no newline and its text before the first delimiter is the
  key: for a one-byte delimiter, keys without the delimiter and keys and values
  without a newline), patching the output of a patch again with the same mapping
  gives the same content, for every content of the file.
\<close>

theorem Patch_idempotent:
  assumes ok: "list_all (entry_ok d) desired" and dist: "distinct (map fst desired)"
  shows "Patch (Patch content d desired) d desired = Patch content d desired"
proof -
  let ?ls = "patch_lines d desired (lines_of content)"
  have "\<forall>l\<in>set ?ls. newline \<notin> set l"
    using patch_lines_no_newline[OF ok lines_of_no_newline] .
  then have "lines_of (unlines ?ls) = ?ls" by (rule lines_of_unlines)
  then show ?thesis
    by (simp add: Patch_def patch_lines_idem[OF ok dist])
qed

theorem Patch_idempotent_witness:
  "Patch sshd_config '' '' sshd_desired =
     ''Port 22'' @ [newline] @ ''# keys'' @ [newline] @ [newline] @
     ''PermitRootLogin no'' @ [newline] @ ''PermitRootLogin maybe'' @ [newline] @
     ''PasswordAuthentication no'' @ [newline]
 \<and> Patch (Patch sshd_config '' '' sshd_desired) '' '' sshd_desired =
     Patch sshd_config '' '' sshd_desired"
proof -
  have ok: "list_all (entry_ok '' '') sshd_desired"
    by (simp add: sshd_desired_def entry_ok_single newline_def)
  have dist: "distinct (map fst sshd_desired)"
    by (simp add: sshd_desired_def)
  have v: "Patch sshd_config '' '' sshd_desired =
     ''Port 22'' @ [newline] @ ''# keys'' @ [newline] @ [newline] @
     ''PermitRootLogin no'' @ [newline] @ ''PermitRootLogin maybe'' @ [newline] @
     ''PasswordAuthentication no'' @ [newline]"
    by (simp add: Patch_def patch_lines_def lines_of_def unlines_def sshd_desired_def sshd_config_def
        patch_line_def directive_of_def newline_def)
  show ?thesis using Patch_idempotent [OF ok dist, of sshd_config] v by simp
qed

text \<open>
  For any mapping the claim fails: a key that contains the delimiter is never the
  directive of a line, so the patcher appends its line on every run. With the space
  as delimiter and the one entry \<^verbatim>\<open>Allow Users\<close> to \<^verbatim>\<open>bob\<close>, the empty file becomes one
  line and that one line becomes two.
\<close>

theorem Patch_key_with_delimiter_counterexample:
  "Patch [] '' '' spaced_desired = ''Allow Users bob'' @ [newline]
 \<and> Patch (''Allow Users bob'' @ [newline]) '' '' spaced_desired =
     ''Allow Users bob'' @ [newline] @ ''Allow Users bob'' @ [newline]"
  by (simp add: Patch_def patch_lines_def lines_of_def unlines_def spaced_desired_def patch_line_def
      directive_of_def newline_def)

end
